theory Spec2Isabelle
  imports Main "HOL-Library.Word" "HOL-Library.AList"
begin

section \<open>JavaScript values used by \<^verbatim>\<open>src/utils/sourceMap.ts\<close>\<close>

text \<open>
  A JavaScript string is a sequence of 16-bit code units; regular expressions without
  the \<^verbatim>\<open>u\<close> flag, \<^verbatim>\<open>split\<close>, \<^verbatim>\<open>replace\<close> and the \<^verbatim>\<open>path\<close> module all work on
  code units. \<open>str\<close> embeds an ASCII literal.
\<close>

type_synonym jschar = "16 word"
type_synonym jsstring = "jschar list"

definition cu :: "char \<Rightarrow> jschar" where
  "cu c = of_nat (of_char c)"

definition str :: "string \<Rightarrow> jsstring" where
  "str s = map cu s"

text \<open>The exceptions the built-ins used by the file can throw.\<close>

datatype jsError = TypeError | SyntaxError | URIError | RangeError

subsection \<open>Character classes of the regular expression\<close>

text \<open>
  \<^verbatim>\<open>.\<close> matches every code unit but a LineTerminator; \<^verbatim>\<open>$\<close> under the flag \<^verbatim>\<open>m\<close>
  holds at the end of the input and before a LineTerminator; \<^verbatim>\<open>\s\<close> is WhiteSpace
  together with LineTerminator (ECMAScript 2016 and later).
\<close>

definition isLineTerminator :: "jschar \<Rightarrow> bool" where
  "isLineTerminator c \<longleftrightarrow> c = 0x000A \<or> c = 0x000D \<or> c = 0x2028 \<or> c = 0x2029"

definition isWhiteSpace :: "jschar \<Rightarrow> bool" where
  "isWhiteSpace c \<longleftrightarrow>
     c = 0x0009 \<or> c = 0x000B \<or> c = 0x000C \<or> c = 0x0020 \<or> c = 0x00A0 \<or> c = 0x1680 \<or>
     (0x2000 \<le> c \<and> c \<le> 0x200A) \<or> c = 0x202F \<or> c = 0x205F \<or> c = 0x3000 \<or> c = 0xFEFF \<or>
     isLineTerminator c"

subsection \<open>\<^verbatim>\<open>SourceMapURLRegex = /\/\/(#|@) sourceMappingURL=(.+?)\s*$/m\<close>\<close>

fun stripPrefix :: "'a list \<Rightarrow> 'a list \<Rightarrow> 'a list option" where
  "stripPrefix [] s = Some s"
| "stripPrefix (p # ps) [] = None"
| "stripPrefix (p # ps) (c # cs) = (if p = c then stripPrefix ps cs else None)"

text \<open>\<^verbatim>\<open>$\<close> with the flag \<^verbatim>\<open>m\<close>, at the position in front of the given rest of the input.\<close>

fun atLineEnd :: "jsstring \<Rightarrow> bool" where
  "atLineEnd [] = True"
| "atLineEnd (c # cs) = isLineTerminator c"

text \<open>
  \<^verbatim>\<open>\s*$\<close>: the star is greedy, so the longest run of white space is tried first and
  given back one code unit at a time until \<^verbatim>\<open>$\<close> holds. The result is the white space
  consumed.
\<close>

fun matchSpacesEnd :: "jsstring \<Rightarrow> jsstring option" where
  "matchSpacesEnd [] = Some []"
| "matchSpacesEnd (c # cs) =
     (if isWhiteSpace c then
        (case matchSpacesEnd cs of
           Some ws \<Rightarrow> Some (c # ws)
         | None \<Rightarrow> if atLineEnd (c # cs) then Some [] else None)
      else if atLineEnd (c # cs) then Some [] else None)"

text \<open>
  \<^verbatim>\<open>(.+?)\s*$\<close>: the plus is lazy, so the group takes one code unit, tries the rest of
  the pattern, and grows by one code unit on failure. The first argument is the group so
  far. The result is the group and the white space after it.
\<close>

fun matchValue :: "jsstring \<Rightarrow> jsstring \<Rightarrow> (jsstring \<times> jsstring) option" where
  "matchValue acc [] = None"
| "matchValue acc (c # cs) =
     (if isLineTerminator c then None
      else (case matchSpacesEnd cs of
              Some ws \<Rightarrow> Some (acc @ [c], ws)
            | None \<Rightarrow> matchValue (acc @ [c]) cs))"

text \<open>The whole pattern at one start position: group 1, group 2 and the trailing white space.\<close>

definition matchAt :: "jsstring \<Rightarrow> (jschar \<times> jsstring \<times> jsstring) option" where
  "matchAt s =
     (case stripPrefix (str ''//'') s of
        None \<Rightarrow> None
      | Some s1 \<Rightarrow>
          (case s1 of
             [] \<Rightarrow> None
           | m # s2 \<Rightarrow>
               if m = cu CHR ''#'' \<or> m = cu CHR ''@'' then
                 (case stripPrefix (str '' sourceMappingURL='') s2 of
                    None \<Rightarrow> None
                  | Some s3 \<Rightarrow>
                      (case matchValue [] s3 of
                         None \<Rightarrow> None
                       | Some (v, ws) \<Rightarrow> Some (m, v, ws)))
               else None))"

text \<open>The result of \<^verbatim>\<open>RegExp.prototype.exec\<close>: \<^verbatim>\<open>match.index\<close>, \<^verbatim>\<open>match[0]\<close>, \<^verbatim>\<open>match[1]\<close>, \<^verbatim>\<open>match[2]\<close>.\<close>

record regexMatch =
  index :: nat
  matched :: jsstring
  group1 :: jsstring
  group2 :: jsstring

definition mkMatch :: "nat \<Rightarrow> jschar \<times> jsstring \<times> jsstring \<Rightarrow> regexMatch" where
  "mkMatch i r =
     (case r of (m, v, ws) \<Rightarrow>
        \<lparr>index = i,
         matched = str ''//'' @ [m] @ str '' sourceMappingURL='' @ v @ ws,
         group1 = [m], group2 = v\<rparr>)"

text \<open>The regular expression is not sticky: the start positions are tried from the left.\<close>

fun searchFrom :: "nat \<Rightarrow> jsstring \<Rightarrow> regexMatch option" where
  "searchFrom i [] = map_option (mkMatch i) (matchAt [])"
| "searchFrom i (c # cs) =
     (case matchAt (c # cs) of
        Some r \<Rightarrow> Some (mkMatch i r)
      | None \<Rightarrow> searchFrom (Suc i) cs)"

definition SourceMapURLRegex_exec :: "jsstring \<Rightarrow> regexMatch option" where
  "SourceMapURLRegex_exec body = searchFrom 0 body"

section \<open>The reference locator\<close>

text \<open>
  \<^verbatim>\<open>
  private getSourceMapRelativeUrl(body: string) {
      let match = body.match(SourceMapUtil.SourceMapURLRegex);
      return match ? match[2] : null;
  }
  \<close>
\<close>

definition getSourceMapRelativeUrl :: "jsstring \<Rightarrow> jsstring option" where
  "getSourceMapRelativeUrl body =
     (case SourceMapURLRegex_exec body of None \<Rightarrow> None | Some match \<Rightarrow> Some (group2 match))"

subsection \<open>The \<^verbatim>\<open>url\<close> module\<close>

text \<open>
  A \<^verbatim>\<open>url.Url\<close> object; \<open>None\<close> is \<^verbatim>\<open>null\<close>. \<^verbatim>\<open>url.parse\<close> is called with one
  argument, so \<^verbatim>\<open>query\<close> is a string.
\<close>

record Url =
  protocol :: "jsstring option"
  slashes :: "bool option"
  auth :: "jsstring option"
  host :: "jsstring option"
  port :: "jsstring option"
  hostname :: "jsstring option"
  hash :: "jsstring option"
  search :: "jsstring option"
  query :: "jsstring option"
  pathname :: "jsstring option"
  path :: "jsstring option"
  href :: "jsstring option"

text \<open>
  The file imports Node's \<^verbatim>\<open>url\<close> module. The operations of the file take the module
  as an argument; \<open>Inl\<close> is a thrown exception.
\<close>

record url_module =
  url_parse :: "jsstring \<Rightarrow> jsError + Url"
  url_format :: "Url \<Rightarrow> jsError + jsstring"

text \<open>
  \<^verbatim>\<open>
  public getSourceMapURL(scriptUrl: url.Url, scriptBody: string): url.Url {
      let result: url.Url = null;
      let sourceMappingRelativeUrl = this.getSourceMapRelativeUrl(scriptBody);
      if (sourceMappingRelativeUrl) {
          let sourceMappingUrl = url.parse(sourceMappingRelativeUrl);
          sourceMappingUrl.protocol = scriptUrl.protocol;
          sourceMappingUrl.host = scriptUrl.host;
          result = url.parse(url.format(sourceMappingUrl));
      }
      return result;
  }
  \<close>
  The empty string is falsy, as \<^verbatim>\<open>null\<close> is.
\<close>

definition getSourceMapURL :: "url_module \<Rightarrow> Url \<Rightarrow> jsstring \<Rightarrow> jsError + Url option" where
  "getSourceMapURL U scriptUrl scriptBody =
     (case getSourceMapRelativeUrl scriptBody of
        None \<Rightarrow> Inr None
      | Some sourceMappingRelativeUrl \<Rightarrow>
          if sourceMappingRelativeUrl = [] then Inr None
          else
            (case url_parse U sourceMappingRelativeUrl of
               Inl e \<Rightarrow> Inl e
             | Inr sourceMappingUrl \<Rightarrow>
                 (case url_format U
                         (sourceMappingUrl\<lparr>protocol := protocol scriptUrl, host := host scriptUrl\<rparr>) of
                    Inl e \<Rightarrow> Inl e
                  | Inr formatted \<Rightarrow>
                      (case url_parse U formatted of
                         Inl e \<Rightarrow> Inl e
                       | Inr result \<Rightarrow> Inr (Some result)))))"

section \<open>The script body rewriter\<close>

subsection \<open>\<^verbatim>\<open>String.prototype.replace\<close> with a replacement string\<close>

text \<open>
  \<^verbatim>\<open>GetSubstitution\<close> for the two capture groups of \<^verbatim>\<open>SourceMapURLRegex\<close>, both of which
  take part in every match: \<^verbatim>\<open>$$\<close> is a dollar sign, \<^verbatim>\<open>$&\<close> the matched text, \<^verbatim>\<open>$\<close> with a
  backquote (code unit 0x60) the text in front of the match, \<^verbatim>\<open>$'\<close> the text behind it,
  \<^verbatim>\<open>$1\<close>, \<^verbatim>\<open>$2\<close>, \<^verbatim>\<open>$01\<close> and \<^verbatim>\<open>$02\<close> the groups. A reference to a group that does not exist
  stays as it is written (so \<^verbatim>\<open>$10\<close> is group 1 followed by \<^verbatim>\<open>0\<close>, as in V8).
\<close>

definition capture :: "regexMatch \<Rightarrow> jschar \<Rightarrow> jsstring" where
  "capture M d = (if d = cu CHR ''1'' then group1 M else group2 M)"

fun getSubstitution :: "regexMatch \<Rightarrow> jsstring \<Rightarrow> jsstring \<Rightarrow> jsstring \<Rightarrow> jsstring" where
  "getSubstitution M preceding following [] = []"
| "getSubstitution M preceding following [c] = [c]"
| "getSubstitution M preceding following (c # d # r) =
     (if c \<noteq> cu CHR ''$'' then c # getSubstitution M preceding following (d # r)
      else if d = cu CHR ''$'' then cu CHR ''$'' # getSubstitution M preceding following r
      else if d = cu CHR ''&'' then matched M @ getSubstitution M preceding following r
      else if d = 0x60 then preceding @ getSubstitution M preceding following r
      else if d = 0x27 then following @ getSubstitution M preceding following r
      else if d = cu CHR ''1'' \<or> d = cu CHR ''2'' then capture M d @ getSubstitution M preceding following r
      else if d = cu CHR ''0'' then
        (case r of
           [] \<Rightarrow> c # getSubstitution M preceding following (d # r)
         | e # r' \<Rightarrow>
             if e = cu CHR ''1'' \<or> e = cu CHR ''2'' then capture M e @ getSubstitution M preceding following r'
             else c # getSubstitution M preceding following (d # r))
      else c # getSubstitution M preceding following (d # r))"

text \<open>
  \<^verbatim>\<open>s.replace(SourceMapURLRegex, replaceValue)\<close>: the regular expression is not global, so
  only the first match is replaced; without a match the string is returned as it is.
\<close>

definition String_replace :: "jsstring \<Rightarrow> jsstring \<Rightarrow> jsstring" where
  "String_replace s replaceValue =
     (case SourceMapURLRegex_exec s of
        None \<Rightarrow> s
      | Some M \<Rightarrow>
          (let preceding = take (index M) s;
               following = drop (index M + length (matched M)) s
           in preceding @ getSubstitution M preceding following replaceValue @ following))"

subsection \<open>The \<^verbatim>\<open>path\<close> module\<close>

text \<open>
  The file imports Node's \<^verbatim>\<open>path\<close> module, which is \<^verbatim>\<open>path.posix\<close> or \<^verbatim>\<open>path.win32\<close> by
  platform; the operations of the file take it as an argument. \<^verbatim>\<open>path.sep\<close> is one code
  unit. \<^verbatim>\<open>path.basename\<close> is applied to \<^verbatim>\<open>pathname\<close>, which can be \<^verbatim>\<open>null\<close>.
  \<^verbatim>\<open>path.posix.join\<close> is the same on every platform.
\<close>

record path_module =
  path_sep :: jschar
  path_relative :: "jsstring \<Rightarrow> jsstring \<Rightarrow> jsstring"
  path_basename :: "jsstring option \<Rightarrow> jsError + jsstring"

text \<open>
  \<^verbatim>\<open>
  public updateScriptPaths(scriptBody: string, sourceMappingUrl: url.Url) {
      return scriptBody.replace(SourceMapUtil.SourceMapURLRegex,
          "//# sourceMappingURL=" + path.basename(sourceMappingUrl.pathname));
  }
  \<close>
\<close>

definition updateScriptPaths :: "path_module \<Rightarrow> jsstring \<Rightarrow> Url \<Rightarrow> jsError + jsstring" where
  "updateScriptPaths P scriptBody sourceMappingUrl =
     (case path_basename P (pathname sourceMappingUrl) of
        Inl e \<Rightarrow> Inl e
      | Inr base \<Rightarrow> Inr (String_replace scriptBody (str ''//# sourceMappingURL='' @ base)))"

subsection \<open>\<^verbatim>\<open>path.posix\<close>\<close>

text \<open>
  Node's \<^verbatim>\<open>lib/path.js\<close> for POSIX. \<^verbatim>\<open>str.split(sep)\<close> and \<^verbatim>\<open>arr.join(sep)\<close>; \<open>cwd\<close> is
  \<^verbatim>\<open>process.cwd()\<close>.
\<close>

fun splitOn :: "jschar \<Rightarrow> jsstring \<Rightarrow> jsstring list" where
  "splitOn sep [] = [[]]"
| "splitOn sep (c # cs) =
     (if c = sep then [] # splitOn sep cs
      else (case splitOn sep cs of [] \<Rightarrow> [[c]] | p # ps \<Rightarrow> (c # p) # ps))"

fun joinWith :: "jsstring \<Rightarrow> jsstring list \<Rightarrow> jsstring" where
  "joinWith sep [] = []"
| "joinWith sep [p] = p"
| "joinWith sep (p # q # ps) = p @ sep @ joinWith sep (q # ps)"

text \<open>
  \<^verbatim>\<open>
  function normalizeArray(parts, allowAboveRoot) {
    var res = [];
    for (var i = 0; i < parts.length; i++) {
      var p = parts[i];
      if (!p || p === '.') continue;
      if (p === '..') {
        if (res.length && res[res.length - 1] !== '..') { res.pop(); }
        else if (allowAboveRoot) { res.push('..'); }
      } else { res.push(p); }
    }
    return res;
  }
  \<close>
\<close>

fun normalizeArray :: "jsstring list \<Rightarrow> bool \<Rightarrow> jsstring list \<Rightarrow> jsstring list" where
  "normalizeArray [] allowAboveRoot res = res"
| "normalizeArray (p # parts) allowAboveRoot res =
     (if p = [] \<or> p = str ''.'' then normalizeArray parts allowAboveRoot res
      else if p = str ''..'' then
        (if res \<noteq> [] \<and> last res \<noteq> str ''..'' then normalizeArray parts allowAboveRoot (butlast res)
         else if allowAboveRoot then normalizeArray parts allowAboveRoot (res @ [str ''..''])
         else normalizeArray parts allowAboveRoot res)
      else normalizeArray parts allowAboveRoot (res @ [p]))"

definition posix_isAbsolute :: "jsstring \<Rightarrow> bool" where
  "posix_isAbsolute p \<longleftrightarrow> (case p of [] \<Rightarrow> False | c # cs \<Rightarrow> c = cu CHR ''/'')"

text \<open>
  \<^verbatim>\<open>posix.resolve\<close>: the arguments are read from the last to the first, then
  \<^verbatim>\<open>process.cwd()\<close>, until the path is absolute; empty arguments are skipped.
\<close>

fun resolveLoop :: "jsstring list \<Rightarrow> jsstring \<Rightarrow> bool \<Rightarrow> jsstring \<times> bool" where
  "resolveLoop [] resolvedPath resolvedAbsolute = (resolvedPath, resolvedAbsolute)"
| "resolveLoop (p # ps) resolvedPath resolvedAbsolute =
     (if resolvedAbsolute then (resolvedPath, resolvedAbsolute)
      else if p = [] then resolveLoop ps resolvedPath resolvedAbsolute
      else resolveLoop ps (p @ str ''/'' @ resolvedPath) (posix_isAbsolute p))"

definition posix_resolve :: "jsstring \<Rightarrow> jsstring list \<Rightarrow> jsstring" where
  "posix_resolve cwd args =
     (case resolveLoop (rev args @ [cwd]) [] False of
        (resolvedPath, resolvedAbsolute) \<Rightarrow>
          (let p = joinWith (str ''/'')
                     (normalizeArray (splitOn (cu CHR ''/'') resolvedPath) (\<not> resolvedAbsolute) []);
               r = (if resolvedAbsolute then str ''/'' else []) @ p
           in if r = [] then str ''.'' else r))"

text \<open>
  \<^verbatim>\<open>posix.relative(from, to)\<close>: both paths are resolved, split at the slashes, and the
  parts \<^verbatim>\<open>from\<close> has beyond the common ones are replaced by \<^verbatim>\<open>..\<close>.
\<close>

definition trimArray :: "jsstring list \<Rightarrow> jsstring list" where
  "trimArray arr = rev (dropWhile (\<lambda>p. p = []) (rev (dropWhile (\<lambda>p. p = []) arr)))"

fun samePartsLength :: "jsstring list \<Rightarrow> jsstring list \<Rightarrow> nat" where
  "samePartsLength (a # as) (b # bs) = (if a = b then Suc (samePartsLength as bs) else 0)"
| "samePartsLength as bs = 0"

definition posix_relative :: "jsstring \<Rightarrow> jsstring \<Rightarrow> jsstring \<Rightarrow> jsstring" where
  "posix_relative cwd from to =
     (let fromParts = trimArray (splitOn (cu CHR ''/'') (drop 1 (posix_resolve cwd [from])));
          toParts = trimArray (splitOn (cu CHR ''/'') (drop 1 (posix_resolve cwd [to])));
          n = samePartsLength fromParts toParts
      in joinWith (str ''/'')
           (replicate (length fromParts - n) (str ''..'') @ drop n toParts))"

text \<open>\<^verbatim>\<open>posix.normalize\<close> and \<^verbatim>\<open>posix.join\<close>; the join of nothing is \<^verbatim>\<open>.\<close>.\<close>

definition posix_normalize :: "jsstring \<Rightarrow> jsstring" where
  "posix_normalize p =
     (let isAbsolute = posix_isAbsolute p;
          trailingSlash = (p \<noteq> [] \<and> last p = cu CHR ''/'');
          p1 = joinWith (str ''/'') (normalizeArray (splitOn (cu CHR ''/'') p) (\<not> isAbsolute) []);
          p2 = (if p1 = [] \<and> \<not> isAbsolute then str ''.'' else p1);
          p3 = (if p2 \<noteq> [] \<and> trailingSlash then p2 @ str ''/'' else p2)
      in (if isAbsolute then str ''/'' else []) @ p3)"

fun joinLoop :: "jsstring list \<Rightarrow> jsstring \<Rightarrow> jsstring" where
  "joinLoop [] p = p"
| "joinLoop (segment # segments) p =
     (if segment \<noteq> [] then
        (if p = [] then joinLoop segments (p @ segment)
         else joinLoop segments (p @ str ''/'' @ segment))
      else joinLoop segments p)"

definition posix_join :: "jsstring list \<Rightarrow> jsstring" where
  "posix_join segments = posix_normalize (joinLoop segments [])"

text \<open>
  \<^verbatim>\<open>posix.basename(path)\<close>: the last part of the path, trailing slashes left out. Applied
  to a value that is not a string it throws a \<^verbatim>\<open>TypeError\<close> (Node 6 and later).
\<close>

definition posix_basename :: "jsstring \<Rightarrow> jsstring" where
  "posix_basename p =
     rev (takeWhile (\<lambda>c. c \<noteq> cu CHR ''/'') (dropWhile (\<lambda>c. c = cu CHR ''/'') (rev p)))"

definition posixPath :: "jsstring \<Rightarrow> path_module" where
  "posixPath cwd =
     \<lparr>path_sep = cu CHR ''/'',
      path_relative = posix_relative cwd,
      path_basename = (\<lambda>p. case p of None \<Rightarrow> Inl TypeError | Some s \<Rightarrow> Inr (posix_basename s))\<rparr>"

section \<open>The source map normalizer\<close>

text \<open>
  \<^verbatim>\<open>
  private makeUnixStylePath(p: string): string {
      let pathArgs = p.split(path.sep);
      return path.posix.join.apply(null, pathArgs);
  }
  private updateSourceMapPath(sourcePath: string, sourcesRootPath: string) {
      let relativeSourcePath = path.relative(sourcesRootPath, sourcePath);
      return this.makeUnixStylePath(relativeSourcePath);
  }
  \<close>
\<close>

definition makeUnixStylePath :: "path_module \<Rightarrow> jsstring \<Rightarrow> jsstring" where
  "makeUnixStylePath P p = (let pathArgs = splitOn (path_sep P) p in posix_join pathArgs)"

definition updateSourceMapPath :: "path_module \<Rightarrow> jsstring \<Rightarrow> jsstring \<Rightarrow> jsstring" where
  "updateSourceMapPath P sourcePath sourcesRootPath =
     (let relativeSourcePath = path_relative P sourcesRootPath sourcePath
      in makeUnixStylePath P relativeSourcePath)"

subsection \<open>JSON values\<close>

text \<open>
  What \<^verbatim>\<open>JSON.parse\<close> returns. An object is the list of its own properties in their order;
  \<open>'n\<close> is the type of numbers. \<^verbatim>\<open>JSON.parse\<close> and \<^verbatim>\<open>JSON.stringify\<close> are built in; the
  normalizer takes them as an argument. \<^verbatim>\<open>JSON.parse\<close> throws on a text that is not JSON.
\<close>

datatype 'n jsvalue =
    JNull
  | JBoolean bool
  | JNumber 'n
  | JString jsstring
  | JArray "'n jsvalue list"
  | JObject "(jsstring \<times> 'n jsvalue) list"

record 'n json_module =
  JSON_parse :: "jsstring \<Rightarrow> jsError + 'n jsvalue"
  JSON_stringify :: "'n jsvalue \<Rightarrow> jsstring"

text \<open>
  \<^verbatim>\<open>sourceMap.sources\<close>: reading a property of \<^verbatim>\<open>null\<close> throws; an array, a string, a
  number and a boolean have no property of that name (\<open>None\<close> is \<^verbatim>\<open>undefined\<close>).
\<close>

definition getProperty_sources :: "'n jsvalue \<Rightarrow> jsError + 'n jsvalue option" where
  "getProperty_sources sourceMap =
     (case sourceMap of
        JNull \<Rightarrow> Inl TypeError
      | JObject props \<Rightarrow> Inr (map_of props (str ''sources''))
      | _ \<Rightarrow> Inr None)"

text \<open>
  The callback of \<^verbatim>\<open>sources.map\<close> on the elements: \<^verbatim>\<open>path.relative\<close> throws a
  \<^verbatim>\<open>TypeError\<close> when an element is not a string.
\<close>

fun mapSourcePaths :: "path_module \<Rightarrow> jsstring \<Rightarrow> 'n jsvalue list \<Rightarrow> jsError + 'n jsvalue list" where
  "mapSourcePaths P sourcesRootPath [] = Inr []"
| "mapSourcePaths P sourcesRootPath (x # xs) =
     (case x of
        JString sourcePath \<Rightarrow>
          (case mapSourcePaths P sourcesRootPath xs of
             Inl e \<Rightarrow> Inl e
           | Inr ys \<Rightarrow> Inr (JString (updateSourceMapPath P sourcePath sourcesRootPath) # ys))
      | _ \<Rightarrow> Inl TypeError)"

text \<open>
  \<^verbatim>\<open>sourceMap.sources.map(...)\<close>: only an array has the method \<^verbatim>\<open>map\<close>; calling it on
  anything else that \<^verbatim>\<open>JSON.parse\<close> returns, or on \<^verbatim>\<open>undefined\<close>, throws a \<^verbatim>\<open>TypeError\<close>.
\<close>

definition sources_map :: "path_module \<Rightarrow> jsstring \<Rightarrow> 'n jsvalue option \<Rightarrow> jsError + 'n jsvalue" where
  "sources_map P sourcesRootPath sources =
     (case sources of
        Some (JArray elems) \<Rightarrow>
          (case mapSourcePaths P sourcesRootPath elems of
             Inl e \<Rightarrow> Inl e
           | Inr mapped \<Rightarrow> Inr (JArray mapped))
      | _ \<Rightarrow> Inl TypeError)"

text \<open>
  Assignment to a property and \<^verbatim>\<open>delete\<close>: an existing property keeps its place, a new
  one comes last. Both are reached with an object only.
\<close>

definition setProperty :: "jsstring \<Rightarrow> 'n jsvalue \<Rightarrow> 'n jsvalue \<Rightarrow> 'n jsvalue" where
  "setProperty name x obj =
     (case obj of JObject props \<Rightarrow> JObject (AList.update name x props) | _ \<Rightarrow> obj)"

definition deleteProperty :: "jsstring \<Rightarrow> 'n jsvalue \<Rightarrow> 'n jsvalue" where
  "deleteProperty name obj =
     (case obj of JObject props \<Rightarrow> JObject (AList.delete name props) | _ \<Rightarrow> obj)"

text \<open>
  \<^verbatim>\<open>
  public updateSourceMapFile(sourceMapBody: string, scriptPath: string, sourcesRootPath: string): string {
      try {
          let sourceMap = <ISourceMap>JSON.parse(sourceMapBody);
          sourceMap.sources = sourceMap.sources.map(sourcePath => {
              return this.updateSourceMapPath(sourcePath, sourcesRootPath);
          });
          delete sourceMap.sourcesContent;
          sourceMap.sourceRoot = "";
          sourceMap.file = scriptPath;
          return JSON.stringify(sourceMap);
      } catch (exception) {
          return sourceMapBody;
      }
  }
  \<close>
  \<open>updateSourceMapFile_try\<close> is the \<^verbatim>\<open>try\<close> block.
\<close>

definition updateSourceMapFile_try ::
  "'n json_module \<Rightarrow> path_module \<Rightarrow> jsstring \<Rightarrow> jsstring \<Rightarrow> jsstring \<Rightarrow> jsError + jsstring" where
  "updateSourceMapFile_try J P sourceMapBody scriptPath sourcesRootPath =
     (case JSON_parse J sourceMapBody of
        Inl e \<Rightarrow> Inl e
      | Inr sourceMap \<Rightarrow>
          (case getProperty_sources sourceMap of
             Inl e \<Rightarrow> Inl e
           | Inr sources \<Rightarrow>
               (case sources_map P sourcesRootPath sources of
                  Inl e \<Rightarrow> Inl e
                | Inr newSources \<Rightarrow>
                    (let sourceMap1 = setProperty (str ''sources'') newSources sourceMap;
                         sourceMap2 = deleteProperty (str ''sourcesContent'') sourceMap1;
                         sourceMap3 = setProperty (str ''sourceRoot'') (JString []) sourceMap2;
                         sourceMap4 = setProperty (str ''file'') (JString scriptPath) sourceMap3
                     in Inr (JSON_stringify J sourceMap4)))))"

definition updateSourceMapFile ::
  "'n json_module \<Rightarrow> path_module \<Rightarrow> jsstring \<Rightarrow> jsstring \<Rightarrow> jsstring \<Rightarrow> jsError + jsstring" where
  "updateSourceMapFile J P sourceMapBody scriptPath sourcesRootPath =
     (case updateSourceMapFile_try J P sourceMapBody scriptPath sourcesRootPath of
        Inl exception \<Rightarrow> Inr sourceMapBody
      | Inr result \<Rightarrow> Inr result)"

section \<open>Node's \<^verbatim>\<open>url\<close> module\<close>

subsection \<open>\<^verbatim>\<open>decodeURIComponent\<close> and \<^verbatim>\<open>encodeURIComponent\<close>\<close>

definition hexValue :: "jschar \<Rightarrow> nat option" where
  "hexValue c =
     (if 0x30 \<le> c \<and> c \<le> 0x39 then Some (unat c - 0x30)
      else if 0x41 \<le> c \<and> c \<le> 0x46 then Some (unat c - 0x41 + 10)
      else if 0x61 \<le> c \<and> c \<le> 0x66 then Some (unat c - 0x61 + 10)
      else None)"

definition hexDigit :: "nat \<Rightarrow> jschar" where
  "hexDigit n = (if n < 10 then of_nat (0x30 + n) else of_nat (0x41 + n - 10))"

definition percentOctet :: "nat \<Rightarrow> jsstring" where
  "percentOctet b = [0x25, hexDigit (b div 16), hexDigit (b mod 16)]"

text \<open>\<^verbatim>\<open>%XY\<close> at the head of the string: the octet and the rest.\<close>

fun readOctet :: "jsstring \<Rightarrow> (nat \<times> jsstring) option" where
  "readOctet (p # x # y # rest) =
     (if p = 0x25 then
        (case (hexValue x, hexValue y) of
           (Some h, Some l) \<Rightarrow> Some (16 * h + l, rest)
         | _ \<Rightarrow> None)
      else None)"
| "readOctet s = None"

text \<open>The continuation octets \<^verbatim>\<open>10xxxxxx\<close> of a UTF-8 sequence, folded into the code point.\<close>

fun readContinuation :: "nat \<Rightarrow> nat \<Rightarrow> jsstring \<Rightarrow> (nat \<times> jsstring) option" where
  "readContinuation 0 v s = Some (v, s)"
| "readContinuation (Suc n) v s =
     (case readOctet s of
        None \<Rightarrow> None
      | Some (b, rest) \<Rightarrow>
          if 0x80 \<le> b \<and> b < 0xC0 then readContinuation n (64 * v + (b - 0x80)) rest
          else None)"

definition codePointUnits :: "nat \<Rightarrow> jsstring" where
  "codePointUnits v =
     (if v < 0x10000 then [of_nat v]
      else [of_nat (0xD800 + (v - 0x10000) div 0x400), of_nat (0xDC00 + (v - 0x10000) mod 0x400)])"

function decodeURIComponent :: "jsstring \<Rightarrow> jsError + jsstring" where
  "decodeURIComponent [] = Inr []"
| "decodeURIComponent (c # cs) =
     (if c \<noteq> 0x25 then
        (case decodeURIComponent cs of Inl e \<Rightarrow> Inl e | Inr r \<Rightarrow> Inr (c # r))
      else
        (case readOctet (c # cs) of
           None \<Rightarrow> Inl URIError
         | Some (b, rest) \<Rightarrow>
             if b < 0x80 then
               (case decodeURIComponent (drop 2 cs) of Inl e \<Rightarrow> Inl e | Inr r \<Rightarrow> Inr (of_nat b # r))
             else
               (let n = (if 0xC0 \<le> b \<and> b < 0xE0 then 2 else if 0xE0 \<le> b \<and> b < 0xF0 then 3
                         else if 0xF0 \<le> b \<and> b < 0xF8 then 4 else 0);
                    lead = (if n = 2 then b - 0xC0 else if n = 3 then b - 0xE0 else b - 0xF0)
                in if n = 0 then Inl URIError
                   else
                     (case readContinuation (n - 1) lead (drop 2 cs) of
                        None \<Rightarrow> Inl URIError
                      | Some (v, rest') \<Rightarrow>
                          if (n = 2 \<and> v < 0x80) \<or> (n = 3 \<and> v < 0x800) \<or>
                             (n = 4 \<and> (v < 0x10000 \<or> 0x10FFFF < v)) \<or>
                             (0xD800 \<le> v \<and> v \<le> 0xDFFF)
                          then Inl URIError
                          else
                            (case decodeURIComponent (drop (2 + 3 * (n - 1)) cs) of
                               Inl e \<Rightarrow> Inl e
                             | Inr r \<Rightarrow> Inr (codePointUnits v @ r))))))"
  by pat_completeness auto
termination
  by (relation "measure length") auto

definition uriUnescaped :: "jschar \<Rightarrow> bool" where
  "uriUnescaped c \<longleftrightarrow>
     (0x41 \<le> c \<and> c \<le> 0x5A) \<or> (0x61 \<le> c \<and> c \<le> 0x7A) \<or> (0x30 \<le> c \<and> c \<le> 0x39) \<or>
     c \<in> set (str ''-_.!~*'') \<or> c = 0x27 \<or> c = cu CHR ''('' \<or> c = cu CHR '')''"

definition utf8Octets :: "nat \<Rightarrow> nat list" where
  "utf8Octets v =
     (if v < 0x80 then [v]
      else if v < 0x800 then [0xC0 + v div 64, 0x80 + v mod 64]
      else if v < 0x10000 then [0xE0 + v div 4096, 0x80 + (v div 64) mod 64, 0x80 + v mod 64]
      else [0xF0 + v div 262144, 0x80 + (v div 4096) mod 64, 0x80 + (v div 64) mod 64,
            0x80 + v mod 64])"

fun encodeURIComponent :: "jsstring \<Rightarrow> jsError + jsstring" where
  "encodeURIComponent [] = Inr []"
| "encodeURIComponent (c # cs) =
     (if uriUnescaped c then
        (case encodeURIComponent cs of Inl e \<Rightarrow> Inl e | Inr r \<Rightarrow> Inr (c # r))
      else if 0xDC00 \<le> c \<and> c \<le> 0xDFFF then Inl URIError
      else if \<not> (0xD800 \<le> c \<and> c \<le> 0xDBFF) then
        (case encodeURIComponent cs of
           Inl e \<Rightarrow> Inl e
         | Inr r \<Rightarrow> Inr (concat (map percentOctet (utf8Octets (unat c))) @ r))
      else
        (case cs of
           [] \<Rightarrow> Inl URIError
         | k # cs' \<Rightarrow>
             if 0xDC00 \<le> k \<and> k \<le> 0xDFFF then
               (case encodeURIComponent cs' of
                  Inl e \<Rightarrow> Inl e
                | Inr r \<Rightarrow>
                    Inr (concat (map percentOctet
                           (utf8Octets ((unat c - 0xD800) * 0x400 + (unat k - 0xDC00) + 0x10000))) @ r))
             else Inl URIError))"

subsection \<open>String helpers\<close>

fun indexOf :: "jschar \<Rightarrow> jsstring \<Rightarrow> nat option" where
  "indexOf x [] = None"
| "indexOf x (c # cs) = (if c = x then Some 0 else map_option Suc (indexOf x cs))"

definition lastIndexOf :: "jschar \<Rightarrow> jsstring \<Rightarrow> nat option" where
  "lastIndexOf x s = (case indexOf x (rev s) of None \<Rightarrow> None | Some i \<Rightarrow> Some (length s - 1 - i))"

definition firstOfAny :: "jschar list \<Rightarrow> jsstring \<Rightarrow> nat option" where
  "firstOfAny xs s =
     (if list_ex (\<lambda>c. c \<in> set xs) s then Some (length (takeWhile (\<lambda>c. c \<notin> set xs) s)) else None)"

definition jsTrim :: "jsstring \<Rightarrow> jsstring" where
  "jsTrim s = rev (dropWhile isWhiteSpace (rev (dropWhile isWhiteSpace s)))"

definition asciiLower :: "jschar \<Rightarrow> jschar" where
  "asciiLower c = (if 0x41 \<le> c \<and> c \<le> 0x5A then c + 0x20 else c)"

definition isDigit :: "jschar \<Rightarrow> bool" where
  "isDigit c \<longleftrightarrow> 0x30 \<le> c \<and> c \<le> 0x39"

definition isAsciiLetter :: "jschar \<Rightarrow> bool" where
  "isAsciiLetter c \<longleftrightarrow> (0x41 \<le> c \<and> c \<le> 0x5A) \<or> (0x61 \<le> c \<and> c \<le> 0x7A)"

subsection \<open>Constants of \<^verbatim>\<open>lib/url.js\<close>\<close>

definition protocolChar :: "jschar \<Rightarrow> bool" where
  "protocolChar c \<longleftrightarrow> isAsciiLetter c \<or> isDigit c \<or> c \<in> set (str ''.+-'')"

definition hostnamePartChar :: "jschar \<Rightarrow> bool" where
  "hostnamePartChar c \<longleftrightarrow> isAsciiLetter c \<or> isDigit c \<or> c \<in> set (str ''+_-'')"

definition autoEscape :: "jschar list" where
  "autoEscape = [0x27] @ str ''{}|'' @ [0x5C] @ str ''^'' @ [0x60] @ str ''<>'' @ [0x22, 0x60] @
     str '' '' @ [0x0D, 0x0A, 0x09]"

definition nonHostChars :: "jschar list" where
  "nonHostChars = str ''%/?;#'' @ autoEscape"

definition hostEndingChars :: "jschar list" where
  "hostEndingChars = str ''/?#''"

definition hostlessProtocol :: "jsstring \<Rightarrow> bool" where
  "hostlessProtocol p \<longleftrightarrow> p = str ''javascript'' \<or> p = str ''javascript:''"

definition unsafeProtocol :: "jsstring \<Rightarrow> bool" where
  "unsafeProtocol p \<longleftrightarrow> p = str ''javascript'' \<or> p = str ''javascript:''"

definition slashedProtocol :: "jsstring \<Rightarrow> bool" where
  "slashedProtocol p \<longleftrightarrow>
     p \<in> set [str ''http'', str ''https'', str ''ftp'', str ''gopher'', str ''file'',
               str ''http:'', str ''https:'', str ''ftp:'', str ''gopher:'', str ''file:'']"

definition emptyUrl :: Url where
  "emptyUrl = \<lparr>protocol = None, slashes = None, auth = None, host = None, port = None,
     hostname = None, hash = None, search = None, query = None, pathname = None, path = None,
     href = None\<rparr>"

text \<open>A string is truthy when it is neither \<^verbatim>\<open>null\<close> nor empty.\<close>

definition truthy :: "jsstring option \<Rightarrow> bool" where
  "truthy s \<longleftrightarrow> (case s of None \<Rightarrow> False | Some x \<Rightarrow> x \<noteq> [])"

definition orEmpty :: "jsstring option \<Rightarrow> jsstring" where
  "orEmpty s = (case s of None \<Rightarrow> [] | Some x \<Rightarrow> x)"

subsection \<open>\<^verbatim>\<open>Url.prototype.format\<close>\<close>

text \<open>\<^verbatim>\<open>auth.replace(/%3A/i, ':')\<close>: the first \<^verbatim>\<open>%3A\<close> or \<^verbatim>\<open>%3a\<close> becomes a colon.\<close>

fun replaceFirstColon :: "jsstring \<Rightarrow> jsstring" where
  "replaceFirstColon (p # x # y # rest) =
     (if p = 0x25 \<and> x = 0x33 \<and> (y = 0x41 \<or> y = 0x61) then 0x3A # rest
      else p # replaceFirstColon (x # y # rest))"
| "replaceFirstColon s = s"

text \<open>\<^verbatim>\<open>pathname.replace(/[?#]/g, encodeURIComponent)\<close> and \<^verbatim>\<open>search.replace('#', '%23')\<close>.\<close>

definition escapePathname :: "jsstring \<Rightarrow> jsstring" where
  "escapePathname p =
     concat (map (\<lambda>c. if c = cu CHR ''?'' then str ''%3F'' else if c = cu CHR ''#'' then str ''%23''
                       else [c]) p)"

fun escapeFirstHash :: "jsstring \<Rightarrow> jsstring" where
  "escapeFirstHash [] = []"
| "escapeFirstHash (c # cs) = (if c = cu CHR ''#'' then str ''%23'' @ cs else c # escapeFirstHash cs)"

definition Url_format :: "Url \<Rightarrow> jsError + jsstring" where
  "Url_format u =
     (case (if truthy (auth u) then
              (case encodeURIComponent (orEmpty (auth u)) of
                 Inl e \<Rightarrow> Inl e
               | Inr a \<Rightarrow> Inr (replaceFirstColon a @ str ''@''))
            else Inr []) of
        Inl e \<Rightarrow> Inl e
      | Inr auth' \<Rightarrow>
          (let protocol0 = orEmpty (protocol u);
               pathname0 = orEmpty (pathname u);
               hash0 = orEmpty (hash u);
               host0 =
                 (if truthy (host u) then Some (auth' @ orEmpty (host u))
                  else if truthy (hostname u) then
                    Some (auth' @
                          (if cu CHR '':'' \<notin> set (orEmpty (hostname u)) then orEmpty (hostname u)
                           else str ''['' @ orEmpty (hostname u) @ str '']'') @
                          (if truthy (port u) then str '':'' @ orEmpty (port u) else []))
                  else None);
               search0 = orEmpty (search u);
               protocol1 =
                 (if protocol0 \<noteq> [] \<and> last protocol0 \<noteq> cu CHR '':'' then protocol0 @ str '':''
                  else protocol0);
               withSlashes =
                 (slashes u = Some True \<or>
                  ((protocol1 = [] \<or> slashedProtocol protocol1) \<and> host0 \<noteq> None));
               host1 = (if withSlashes then str ''//'' @ orEmpty host0 else orEmpty host0);
               pathname1 =
                 (if withSlashes \<and> pathname0 \<noteq> [] \<and> hd pathname0 \<noteq> cu CHR ''/''
                  then str ''/'' @ pathname0 else pathname0);
               hash1 = (if hash0 \<noteq> [] \<and> hd hash0 \<noteq> cu CHR ''#'' then str ''#'' @ hash0 else hash0);
               search1 =
                 (if search0 \<noteq> [] \<and> hd search0 \<noteq> cu CHR ''?'' then str ''?'' @ search0
                  else search0)
           in Inr (protocol1 @ host1 @ escapePathname pathname1 @ escapeFirstHash search1 @ hash1)))"

subsection \<open>\<^verbatim>\<open>Url.prototype.parse\<close>\<close>

text \<open>
  \<^verbatim>\<open>url.parse(url)\<close> of Node 4 (\<^verbatim>\<open>lib/url.js\<close>), with one argument: the query string is not
  parsed and slashes do not denote a host. The steps are in the order of the source, one
  definition for each; the last ones come first. \<^verbatim>\<open>String.prototype.toLowerCase\<close> and
  \<^verbatim>\<open>punycode.toASCII\<close> are arguments, used for host names that are not in ASCII.
\<close>

record unicode_lib =
  toLowerCase :: "jsstring \<Rightarrow> jsstring"
  punycode_toASCII :: "jsstring \<Rightarrow> jsstring"

definition convertBackslashes :: "jsstring \<Rightarrow> jsstring" where
  "convertBackslashes url =
     (let queryIndex = indexOf (cu CHR ''?'') url;
          hashIndex = indexOf (cu CHR ''#'') url;
          splitter = (case (queryIndex, hashIndex) of
                        (Some q, Some h) \<Rightarrow> if q < h then cu CHR ''?'' else cu CHR ''#''
                      | _ \<Rightarrow> cu CHR ''#'');
          n = (case indexOf splitter url of None \<Rightarrow> length url | Some i \<Rightarrow> i)
      in map (\<lambda>c. if c = 0x5C then cu CHR ''/'' else c) (take n url) @ drop n url)"

definition simplePathChar :: "jschar \<Rightarrow> bool" where
  "simplePathChar c \<longleftrightarrow> c \<noteq> cu CHR ''?'' \<and> \<not> isWhiteSpace c"

definition simplePathPattern :: "jsstring \<Rightarrow> (jsstring \<times> jsstring option) option" where
  "simplePathPattern rest =
     (case rest of
        [] \<Rightarrow> None
      | c # r1 \<Rightarrow>
          if c \<noteq> cu CHR ''/'' then None
          else
            (let k = (case r1 of [] \<Rightarrow> 1 | d # r2 \<Rightarrow> if d = cu CHR ''/'' then 2 else (1::nat))
             in if k = 2 \<and> (case drop 2 rest of [] \<Rightarrow> False | e # r3 \<Rightarrow> e = cu CHR ''/'') then None
                else
                  (let r = drop k rest;
                       body = takeWhile simplePathChar r;
                       t = dropWhile simplePathChar r
                   in if t = [] then Some (take k rest @ body, None)
                      else if hd t = cu CHR ''?'' \<and> \<not> list_ex isWhiteSpace (tl t)
                      then Some (take k rest @ body, Some t)
                      else None)))"

definition protocolPattern :: "jsstring \<Rightarrow> jsstring option" where
  "protocolPattern rest =
     (let name = takeWhile protocolChar rest; r = dropWhile protocolChar rest
      in if name \<noteq> [] \<and> r \<noteq> [] \<and> hd r = cu CHR '':'' then Some (name @ str '':'') else None)"

text \<open>\<^verbatim>\<open>rest.match(/^\/\/[^@\/]+@[^@\/]+/)\<close>\<close>

definition authorityPattern :: "jsstring \<Rightarrow> bool" where
  "authorityPattern rest =
     (case stripPrefix (str ''//'') rest of
        None \<Rightarrow> False
      | Some r \<Rightarrow>
          (let notAtSlash = (\<lambda>c. c \<noteq> cu CHR ''@'' \<and> c \<noteq> cu CHR ''/'');
               a = takeWhile notAtSlash r; b = dropWhile notAtSlash r
           in a \<noteq> [] \<and> b \<noteq> [] \<and> hd b = cu CHR ''@'' \<and> tl b \<noteq> [] \<and> notAtSlash (hd (tl b))))"

definition portPattern :: "jsstring \<Rightarrow> jsstring option" where
  "portPattern h =
     (case lastIndexOf (cu CHR '':'') h of
        None \<Rightarrow> None
      | Some i \<Rightarrow> if list_all isDigit (drop (Suc i) h) then Some (drop i h) else None)"

definition hostnamePartPattern :: "jsstring \<Rightarrow> bool" where
  "hostnamePartPattern part \<longleftrightarrow> list_all hostnamePartChar part \<and> length part \<le> 63"

definition hostnamePartStart :: "jsstring \<Rightarrow> (jsstring \<times> jsstring) option" where
  "hostnamePartStart part =
     (let g1 = take 63 (takeWhile hostnamePartChar part); g2 = drop (length g1) part
      in if list_ex isLineTerminator g2 then None else Some (g1, g2))"

text \<open>
  The loop over \<^verbatim>\<open>hostparts\<close>: \<open>None\<close> when every part is valid, otherwise \<^verbatim>\<open>validParts\<close>
  and \<^verbatim>\<open>notHost\<close> at the first invalid part.
\<close>

fun validateHostParts :: "jsstring list \<Rightarrow> jsstring list \<Rightarrow> (jsstring list \<times> jsstring list) option" where
  "validateHostParts seen [] = None"
| "validateHostParts seen (part # parts) =
     (if part = [] \<or> hostnamePartPattern part \<or>
         hostnamePartPattern (map (\<lambda>c. if c > 127 then cu CHR ''x'' else c) part)
      then validateHostParts (seen @ [part]) parts
      else (case hostnamePartStart part of
              Some (g1, g2) \<Rightarrow> Some (seen @ [g1], g2 # parts)
            | None \<Rightarrow> Some (seen, parts)))"

text \<open>
  The host section. \<^verbatim>\<open>auth\<close> is what stands in front of the last \<^verbatim>\<open>@\<close> that is not behind
  a \<^verbatim>\<open>/\<close>, \<^verbatim>\<open>?\<close> or \<^verbatim>\<open>#\<close>; \<^verbatim>\<open>decodeURIComponent\<close> can throw.
\<close>

definition splitAuth :: "jsstring \<Rightarrow> jsError + (jsstring option \<times> jsstring)" where
  "splitAuth rest =
     (case (case firstOfAny hostEndingChars rest of
              None \<Rightarrow> lastIndexOf (cu CHR ''@'') rest
            | Some hostEnd \<Rightarrow> lastIndexOf (cu CHR ''@'') (take (Suc hostEnd) rest)) of
        None \<Rightarrow> Inr (None, rest)
      | Some atSign \<Rightarrow>
          (case decodeURIComponent (take atSign rest) of
             Inl e \<Rightarrow> Inl e
           | Inr a \<Rightarrow> Inr (Some a, drop (Suc atSign) rest)))"

definition hostEndIndex :: "jsstring \<Rightarrow> nat" where
  "hostEndIndex rest = (case firstOfAny nonHostChars rest of None \<Rightarrow> length rest | Some e \<Rightarrow> e)"

text \<open>\<^verbatim>\<open>Url.prototype.parseHost\<close>: the port and the host name.\<close>

definition parseHost :: "jsstring \<Rightarrow> jsstring option \<times> jsstring" where
  "parseHost h =
     (case portPattern h of
        None \<Rightarrow> (None, h)
      | Some p \<Rightarrow> (if p \<noteq> str '':'' then Some (drop 1 p) else None, take (length h - length p) h))"

definition isIpv6Hostname :: "jsstring \<Rightarrow> bool" where
  "isIpv6Hostname h \<longleftrightarrow> h \<noteq> [] \<and> hd h = cu CHR ''['' \<and> last h = cu CHR '']''"

text \<open>The validation of the host name: what is not a host name goes back in front of the rest.\<close>

definition validateHostname :: "jsstring \<Rightarrow> jsstring \<Rightarrow> jsstring \<times> jsstring" where
  "validateHostname h rest =
     (if isIpv6Hostname h then (h, rest)
      else (case validateHostParts [] (splitOn (cu CHR ''.'') h) of
              None \<Rightarrow> (h, rest)
            | Some (validParts, notHost) \<Rightarrow>
                (joinWith (str ''.'') validParts,
                 if notHost \<noteq> [] then str ''/'' @ joinWith (str ''.'') notHost @ rest else rest)))"

text \<open>
  \<^verbatim>\<open>hostname.toLowerCase()\<close> and \<^verbatim>\<open>punycode.toASCII(hostname)\<close>: on a host name in ASCII the
  first maps \<^verbatim>\<open>A-Z\<close> to \<^verbatim>\<open>a-z\<close> and the second changes nothing; on any other host name they
  are the functions of the argument \<open>L\<close>.
\<close>

definition lowerHostname :: "unicode_lib \<Rightarrow> jsstring \<Rightarrow> jsstring" where
  "lowerHostname L h =
     (if length h > 255 then []
      else if list_all (\<lambda>c. c \<le> 127) h then map asciiLower h
      else toLowerCase L h)"

definition idnaHostname :: "unicode_lib \<Rightarrow> bool \<Rightarrow> jsstring \<Rightarrow> jsstring" where
  "idnaHostname L ipv6Hostname h =
     (if ipv6Hostname \<or> list_all (\<lambda>c. c \<le> 127) h then h else punycode_toASCII L h)"

record hostPart =
  hp_auth :: "jsstring option"
  hp_host :: jsstring
  hp_port :: "jsstring option"
  hp_hostname :: jsstring
  hp_rest :: jsstring

definition buildHost :: "jsstring option \<Rightarrow> jsstring option \<Rightarrow> bool \<Rightarrow> jsstring \<Rightarrow> jsstring \<Rightarrow> hostPart" where
  "buildHost a p ipv6Hostname h rest =
     \<lparr>hp_auth = a,
      hp_host = h @ (if truthy p then str '':'' @ orEmpty p else []),
      hp_port = p,
      hp_hostname = (if ipv6Hostname then take (length h - 2) (drop 1 h) else h),
      hp_rest = (if ipv6Hostname \<and> (rest = [] \<or> hd rest \<noteq> cu CHR ''/'') then str ''/'' @ rest
                 else rest)\<rparr>"

definition finishHost ::
  "unicode_lib \<Rightarrow> jsstring option \<Rightarrow> jsstring option \<Rightarrow> bool \<Rightarrow> jsstring \<times> jsstring \<Rightarrow> hostPart" where
  "finishHost L a p ipv6Hostname hr =
     (case hr of (h, rest) \<Rightarrow>
        buildHost a p ipv6Hostname (idnaHostname L ipv6Hostname (lowerHostname L h)) rest)"

definition hostStage :: "unicode_lib \<Rightarrow> jsstring option \<Rightarrow> jsstring \<Rightarrow> jsstring \<Rightarrow> hostPart" where
  "hostStage L a h0 rest =
     (case parseHost h0 of (p, h) \<Rightarrow>
        finishHost L a p (isIpv6Hostname h) (validateHostname h rest))"

definition parseHostSection :: "unicode_lib \<Rightarrow> jsstring \<Rightarrow> jsError + hostPart" where
  "parseHostSection L rest0 =
     (case splitAuth rest0 of
        Inl e \<Rightarrow> Inl e
      | Inr (a, rest1) \<Rightarrow>
          Inr (hostStage L a (take (hostEndIndex rest1) rest1) (drop (hostEndIndex rest1) rest1)))"

text \<open>Every character of \<^verbatim>\<open>autoEscape\<close> becomes its percent escape.\<close>

definition escapeAuto :: "jsstring \<Rightarrow> jsstring" where
  "escapeAuto rest = concat (map (\<lambda>c. if c \<in> set autoEscape then percentOctet (unat c) else [c]) rest)"

text \<open>The end of \<^verbatim>\<open>parse\<close>: \<^verbatim>\<open>pathname\<close>, \<^verbatim>\<open>path\<close> and \<^verbatim>\<open>href\<close>.\<close>

definition finalPathname :: "jsstring option \<Rightarrow> hostPart option \<Rightarrow> jsstring \<Rightarrow> jsstring option" where
  "finalPathname lowerProto hp rest =
     (if rest \<noteq> [] then Some rest
      else if (case lowerProto of None \<Rightarrow> False | Some p \<Rightarrow> slashedProtocol p) \<and>
              truthy (map_option hp_hostname hp)
      then Some (str ''/'')
      else None)"

definition withHref :: "Url \<Rightarrow> jsError + Url" where
  "withHref u = (case Url_format u of Inl e \<Rightarrow> Inl e | Inr h \<Rightarrow> Inr (u\<lparr>href := Some h\<rparr>))"

definition buildUrl ::
  "jsstring option \<Rightarrow> bool \<Rightarrow> hostPart option \<Rightarrow> jsstring option \<Rightarrow> jsstring option \<Rightarrow>
   jsstring option \<Rightarrow> jsstring \<Rightarrow> jsError + Url" where
  "buildUrl lowerProto strip hp hash1 search1 query1 rest =
     withHref
       \<lparr>protocol = lowerProto,
        slashes = (if strip then Some True else None),
        auth = (case hp of None \<Rightarrow> None | Some h \<Rightarrow> hp_auth h),
        host = map_option hp_host hp,
        port = (case hp of None \<Rightarrow> None | Some h \<Rightarrow> hp_port h),
        hostname = map_option hp_hostname hp,
        hash = hash1, search = search1, query = query1,
        pathname = finalPathname lowerProto hp rest,
        path = (if truthy (finalPathname lowerProto hp rest) \<or> truthy search1
                then Some (orEmpty (finalPathname lowerProto hp rest) @ orEmpty search1)
                else None),
        href = None\<rparr>"

definition splitQuery ::
  "jsstring option \<Rightarrow> bool \<Rightarrow> hostPart option \<Rightarrow> jsstring option \<Rightarrow> jsstring \<Rightarrow> jsError + Url" where
  "splitQuery lowerProto strip hp hash1 rest =
     (case indexOf (cu CHR ''?'') rest of
        None \<Rightarrow> buildUrl lowerProto strip hp hash1 None None rest
      | Some qm \<Rightarrow>
          buildUrl lowerProto strip hp hash1 (Some (drop qm rest)) (Some (drop (Suc qm) rest))
            (take qm rest))"

definition splitHash ::
  "jsstring option \<Rightarrow> bool \<Rightarrow> hostPart option \<Rightarrow> jsstring \<Rightarrow> jsError + Url" where
  "splitHash lowerProto strip hp rest =
     (case indexOf (cu CHR ''#'') rest of
        None \<Rightarrow> splitQuery lowerProto strip hp None rest
      | Some i \<Rightarrow> splitQuery lowerProto strip hp (Some (drop i rest)) (take i rest))"

definition afterHost ::
  "jsstring option \<Rightarrow> bool \<Rightarrow> hostPart option \<Rightarrow> jsstring \<Rightarrow> jsError + Url" where
  "afterHost lowerProto strip hp rest =
     splitHash lowerProto strip hp
       (if (case lowerProto of None \<Rightarrow> False | Some p \<Rightarrow> unsafeProtocol p) then rest
        else escapeAuto rest)"

text \<open>
  The slashes and the host: \<^verbatim>\<open>proto\<close> is the protocol as written, which is what the
  tables \<^verbatim>\<open>hostlessProtocol\<close> and \<^verbatim>\<open>slashedProtocol\<close> are asked for here.
\<close>

definition hasSlashes :: "jsstring option \<Rightarrow> jsstring \<Rightarrow> bool" where
  "hasSlashes proto rest \<longleftrightarrow>
     (proto \<noteq> None \<or> authorityPattern rest) \<and> take 2 rest = str ''//''"

definition isHostless :: "jsstring option \<Rightarrow> bool" where
  "isHostless proto = (case proto of None \<Rightarrow> False | Some p \<Rightarrow> hostlessProtocol p)"

definition hostStep ::
  "unicode_lib \<Rightarrow> jsstring option \<Rightarrow> bool \<Rightarrow> bool \<Rightarrow> jsstring \<Rightarrow> jsError + Url" where
  "hostStep L proto strip hasHost rest =
     (if hasHost then
        (case parseHostSection L rest of
           Inl e \<Rightarrow> Inl e
         | Inr hp \<Rightarrow> afterHost (map_option (map asciiLower) proto) strip (Some hp) (hp_rest hp))
      else afterHost (map_option (map asciiLower) proto) strip None rest)"

definition slashesStep :: "unicode_lib \<Rightarrow> jsstring option \<Rightarrow> jsstring \<Rightarrow> jsError + Url" where
  "slashesStep L proto rest =
     hostStep L proto (hasSlashes proto rest \<and> \<not> isHostless proto)
       (\<not> isHostless proto \<and>
        (hasSlashes proto rest \<or> (case proto of None \<Rightarrow> False | Some p \<Rightarrow> \<not> slashedProtocol p)))
       (if hasSlashes proto rest \<and> \<not> isHostless proto then drop 2 rest else rest)"

definition protocolStep :: "unicode_lib \<Rightarrow> jsstring \<Rightarrow> jsError + Url" where
  "protocolStep L rest =
     (case protocolPattern rest of
        None \<Rightarrow> slashesStep L None rest
      | Some proto \<Rightarrow> slashesStep L (Some proto) (drop (length proto) rest))"

definition simplePathStep :: "unicode_lib \<Rightarrow> bool \<Rightarrow> jsstring \<Rightarrow> jsError + Url" where
  "simplePathStep L noHash rest =
     (case (if noHash then simplePathPattern rest else None) of
        Some (p, s) \<Rightarrow>
          Inr (emptyUrl\<lparr>path := Some rest, href := Some rest, pathname := Some p,
                 search := s, query := map_option (drop 1) s\<rparr>)
      | None \<Rightarrow> protocolStep L rest)"

definition trimStep :: "unicode_lib \<Rightarrow> jsstring \<Rightarrow> jsError + Url" where
  "trimStep L url = simplePathStep L (cu CHR ''#'' \<notin> set url) (jsTrim url)"

definition Url_parse :: "unicode_lib \<Rightarrow> jsstring \<Rightarrow> jsError + Url" where
  "Url_parse L url = trimStep L (convertBackslashes url)"

text \<open>
  A stand-in for the two Unicode functions; they are not reached for host names in ASCII,
  which is all the examples have.
\<close>

definition asciiOnlyLib :: unicode_lib where
  "asciiOnlyLib = \<lparr>toLowerCase = map asciiLower, punycode_toASCII = (\<lambda>s. s)\<rparr>"

definition nodeUrl :: "unicode_lib \<Rightarrow> url_module" where
  "nodeUrl L = \<lparr>url_parse = Url_parse L, url_format = Url_format\<rparr>"

section \<open>Notions used to state the properties\<close>

text \<open>The rest of the line: the code units in front of the first LineTerminator.\<close>

definition lineRest :: "jsstring \<Rightarrow> jsstring" where
  "lineRest r = takeWhile (\<lambda>c. \<not> isLineTerminator c) r"

text \<open>A string without its trailing white space (the class \<^verbatim>\<open>\s\<close>).\<close>

definition trimEnd :: "jsstring \<Rightarrow> jsstring" where
  "trimEnd s = rev (dropWhile isWhiteSpace (rev s))"

text \<open>
  A recognised reference comment in \<open>body\<close>: after the prefix \<open>pre\<close> stands
  \<^verbatim>\<open>//# sourceMappingURL=\<close> or \<^verbatim>\<open>//@ sourceMappingURL=\<close> (\<open>m\<close> is the marker), followed by
  \<open>r\<close>, whose line is not empty.
\<close>

definition referenceCommentAt :: "jsstring \<Rightarrow> jsstring \<Rightarrow> jschar \<Rightarrow> jsstring \<Rightarrow> bool" where
  "referenceCommentAt body pre m r \<longleftrightarrow>
     body = pre @ str ''//'' @ [m] @ str '' sourceMappingURL='' @ r \<and>
     (m = cu CHR ''#'' \<or> m = cu CHR ''@'') \<and> lineRest r \<noteq> []"

text \<open>
  The value of a comment followed by \<open>r\<close>: the rest of the line without its trailing
  white space; of a line of white space only, the first code unit.
\<close>

definition commentValue :: "jsstring \<Rightarrow> jsstring" where
  "commentValue r =
     (if trimEnd (lineRest r) = [] then take 1 (lineRest r) else trimEnd (lineRest r))"

text \<open>\<^verbatim>\<open>s.includes(p)\<close>: \<open>p\<close> occurs in \<open>s\<close> as a substring.\<close>

fun occursIn :: "jsstring \<Rightarrow> jsstring \<Rightarrow> bool" where
  "occursIn p [] = (stripPrefix p [] \<noteq> None)"
| "occursIn p (c # cs) = (stripPrefix p (c # cs) \<noteq> None \<or> occursIn p cs)"

text \<open>
  A document the normalizer works on: an object whose \<^verbatim>\<open>sources\<close> is an array of strings
  (the part of \<^verbatim>\<open>ISourceMap\<close> the code reads).
\<close>

fun isJString :: "'n jsvalue \<Rightarrow> bool" where
  "isJString (JString s) = True"
| "isJString v = False"

definition isSourceMapDocument :: "'n jsvalue \<Rightarrow> bool" where
  "isSourceMapDocument v =
     (case v of
        JObject props \<Rightarrow>
          (case map_of props (str ''sources'') of
             Some (JArray elems) \<Rightarrow> list_all isJString elems
           | _ \<Rightarrow> False)
      | _ \<Rightarrow> False)"

text \<open>
  The parts of a normalized absolute path: not empty, without a slash, and neither \<^verbatim>\<open>.\<close>
  nor \<^verbatim>\<open>..\<close>; and the path \<^verbatim>\<open>/p1/p2/...\<close> of such parts, as \<^verbatim>\<open>process.cwd()\<close> returns it.
\<close>

definition isNormalParts :: "jsstring list \<Rightarrow> bool" where
  "isNormalParts parts \<longleftrightarrow>
     list_all (\<lambda>p. p \<noteq> [] \<and> cu CHR ''/'' \<notin> set p \<and> p \<noteq> str ''.'' \<and> p \<noteq> str ''..'') parts"

definition absPath :: "jsstring list \<Rightarrow> jsstring" where
  "absPath parts = str ''/'' @ joinWith (str ''/'') parts"

text \<open>
  The parts of \<^verbatim>\<open>posix.resolve(x)\<close> for an absolute working directory, the parts of
  \<^verbatim>\<open>posix.relative\<close> for resolved parts, and the path \<^verbatim>\<open>makeUnixStylePath\<close> makes of them.
\<close>

definition resolvedParts :: "jsstring \<Rightarrow> jsstring \<Rightarrow> jsstring list" where
  "resolvedParts cwd x =
     normalizeArray (splitOn (cu CHR ''/'')
        (if posix_isAbsolute x then x @ str ''/''
         else if x = [] then cwd @ str ''/''
         else cwd @ str ''/'' @ x @ str ''/'')) False []"

definition relativeParts :: "jsstring list \<Rightarrow> jsstring list \<Rightarrow> jsstring list" where
  "relativeParts F T =
     replicate (length F - samePartsLength F T) (str ''..'') @ drop (samePartsLength F T) T"

definition renderParts :: "jsstring list \<Rightarrow> jsstring" where
  "renderParts q = (if q = [] then str ''.'' else joinWith (str ''/'') q)"

text \<open>
  The inputs on which the resolution is stated. A script location has one of the schemes of
  the table \<^verbatim>\<open>slashedProtocol\<close>, written with its colon as \<^verbatim>\<open>url.parse\<close> returns it, and a
  host that is a host name in lower case (labels of letters, digits, \<^verbatim>\<open>+\<close>, \<^verbatim>\<open>_\<close> and \<^verbatim>\<open>-\<close>,
  at most 63 code units each, separated by dots, at most 255 code units together) with an
  optional decimal port.
\<close>

definition slashedScheme :: "jsstring \<Rightarrow> bool" where
  "slashedScheme p \<longleftrightarrow>
     p \<in> set [str ''http:'', str ''https:'', str ''ftp:'', str ''gopher:'', str ''file:'']"

definition plainHostChar :: "jschar \<Rightarrow> bool" where
  "plainHostChar c \<longleftrightarrow> c \<in> set (str ''abcdefghijklmnopqrstuvwxyz0123456789+_-'')"

definition plainHostname :: "jsstring \<Rightarrow> bool" where
  "plainHostname h \<longleftrightarrow>
     h \<noteq> [] \<and> length h \<le> 255 \<and> list_all (\<lambda>c. plainHostChar c \<or> c = cu CHR ''.'') h \<and>
     list_all (\<lambda>part. length part \<le> 63) (splitOn (cu CHR ''.'') h)"

text \<open>\<open>hst\<close> is the host made of the host name \<open>h\<close> and the port \<open>p\<close>.\<close>

definition plainHost :: "jsstring \<Rightarrow> jsstring option \<Rightarrow> jsstring \<Rightarrow> bool" where
  "plainHost h p hst \<longleftrightarrow>
     plainHostname h \<and>
     (case p of
        None \<Rightarrow> hst = h
      | Some d \<Rightarrow> d \<noteq> [] \<and> list_all isDigit d \<and> hst = h @ str '':'' @ d)"

text \<open>
  A reference value that is an absolute path \<open>p\<close>, which begins with a slash, followed by
  the query \<open>s\<close>, which is empty or begins with \<^verbatim>\<open>?\<close>; none of its code units is white space,
  \<^verbatim>\<open>#\<close> or a character that \<^verbatim>\<open>url.parse\<close> escapes (\<^verbatim>\<open>autoEscape\<close>).
\<close>

definition plainPathChar :: "jschar \<Rightarrow> bool" where
  "plainPathChar c \<longleftrightarrow>
     c \<noteq> cu CHR ''?'' \<and> c \<noteq> cu CHR ''#'' \<and> \<not> isWhiteSpace c \<and> c \<notin> set autoEscape"

definition plainQueryChar :: "jschar \<Rightarrow> bool" where
  "plainQueryChar c \<longleftrightarrow> c \<noteq> cu CHR ''#'' \<and> \<not> isWhiteSpace c \<and> c \<notin> set autoEscape"

definition absolutePathReference :: "jsstring \<Rightarrow> jsstring \<Rightarrow> bool" where
  "absolutePathReference p s \<longleftrightarrow>
     (case p of
        [] \<Rightarrow> False
      | c # r \<Rightarrow> c = cu CHR ''/'' \<and> list_all plainPathChar r) \<and>
     (case s of [] \<Rightarrow> True | c # r \<Rightarrow> c = cu CHR ''?'' \<and> list_all plainQueryChar r)"

text \<open>The location with scheme \<open>proto\<close>, host \<open>hst\<close>, path \<open>pth\<close> and query \<open>s\<close>.\<close>

definition resolvedUrl ::
  "jsstring \<Rightarrow> jsstring \<Rightarrow> jsstring option \<Rightarrow> jsstring \<Rightarrow> jsstring \<Rightarrow> jsstring \<Rightarrow> Url" where
  "resolvedUrl proto hst p h pth s =
     \<lparr>protocol = Some proto, slashes = Some True, auth = None, host = Some hst, port = p,
      hostname = Some h, hash = None,
      search = (if s = [] then None else Some s),
      query = (if s = [] then None else Some (drop 1 s)),
      pathname = Some pth, path = Some (pth @ s),
      href = Some (proto @ str ''//'' @ hst @ pth @ s)\<rparr>"

subsection \<open>Example inputs\<close>

text \<open>A \<^verbatim>\<open>url\<close> module whose functions always throw.\<close>

definition throwingUrl :: url_module where
  "throwingUrl = \<lparr>url_parse = (\<lambda>s. Inl URIError), url_format = (\<lambda>u. Inl TypeError)\<rparr>"

text \<open>
  The script location of the comment in \<^verbatim>\<open>getSourceMapURL\<close>:
  \<^verbatim>\<open>http://localhost:8081/index.ios.bundle?platform=ios&dev=true\<close>.
\<close>

definition exampleScriptUrl :: Url where
  "exampleScriptUrl =
     \<lparr>protocol = Some (str ''http:''), slashes = Some True, auth = None,
      host = Some (str ''localhost:8081''), port = Some (str ''8081''),
      hostname = Some (str ''localhost''), hash = None,
      search = Some (str ''?platform=ios&dev=true''),
      query = Some (str ''platform=ios&dev=true''),
      pathname = Some (str ''/index.ios.bundle''),
      path = Some (str ''/index.ios.bundle?platform=ios&dev=true''),
      href = Some (str ''http://localhost:8081/index.ios.bundle?platform=ios&dev=true'')\<rparr>"

text \<open>A body of three lines with two reference comments, the first with trailing blanks.\<close>

definition twoComments :: jsstring where
  "twoComments = str ''a();'' @ [0x0A] @ str ''//@ sourceMappingURL=x.map  '' @ [0x0A] @
     str ''//# sourceMappingURL=y.map'' @ [0x0A]"

text \<open>The text of a source map, the document it parses to, and a \<^verbatim>\<open>JSON\<close> for the examples.\<close>

definition exampleMapText :: jsstring where
  \<open>exampleMapText = str ''{"version":3,"sources":["/proj/src/app/index.js","/other/lib.js"],"sourcesContent":["a","b"],"mappings":"AAAA","sourceRoot":"/proj","x_custom":true}''\<close>

definition exampleMap :: "nat jsvalue" where
  "exampleMap = JObject
     [(str ''version'', JNumber 3),
      (str ''sources'', JArray [JString (str ''/proj/src/app/index.js''), JString (str ''/other/lib.js'')]),
      (str ''sourcesContent'', JArray [JString (str ''a''), JString (str ''b'')]),
      (str ''mappings'', JString (str ''AAAA'')),
      (str ''sourceRoot'', JString (str ''/proj'')),
      (str ''x_custom'', JBoolean True)]"

fun digits :: "nat \<Rightarrow> nat \<Rightarrow> jsstring" where
  "digits 0 n = []"
| "digits (Suc fuel) n =
     (if n < 10 then [of_nat (48 + n)] else digits fuel (n div 10) @ [of_nat (48 + n mod 10)])"

fun exampleStringify :: "nat jsvalue \<Rightarrow> jsstring" where
  "exampleStringify JNull = str ''null''"
| "exampleStringify (JBoolean b) = (if b then str ''true'' else str ''false'')"
| "exampleStringify (JNumber n) = digits (Suc n) n"
| "exampleStringify (JString s) = [0x22] @ s @ [0x22]"
| "exampleStringify (JArray xs) =
     str ''['' @ joinWith (str '','') (map exampleStringify xs) @ str '']''"
| "exampleStringify (JObject props) =
     str ''{'' @ joinWith (str '','')
        (map (\<lambda>(k, v). [0x22] @ k @ [0x22] @ str '':'' @ exampleStringify v) props) @ str ''}''"

text \<open>
  The example normalized with the root \<^verbatim>\<open>/proj/src\<close>, and normalized once more in the working
  directory \<^verbatim>\<open>/home/u\<close>.
\<close>

definition normalizedMapText :: jsstring where
  \<open>normalizedMapText = str ''{"version":3,"sources":["app/index.js","../../other/lib.js"],"mappings":"AAAA","sourceRoot":"","x_custom":true,"file":"/out/index.ios.bundle"}''\<close>

definition normalizedMap :: "nat jsvalue" where
  "normalizedMap = JObject
     [(str ''version'', JNumber 3),
      (str ''sources'', JArray [JString (str ''app/index.js''), JString (str ''../../other/lib.js'')]),
      (str ''mappings'', JString (str ''AAAA'')),
      (str ''sourceRoot'', JString []),
      (str ''x_custom'', JBoolean True),
      (str ''file'', JString (str ''/out/index.ios.bundle''))]"

definition renormalizedMapText :: jsstring where
  \<open>renormalizedMapText = str ''{"version":3,"sources":["../../home/u/app/index.js","../../other/lib.js"],"mappings":"AAAA","sourceRoot":"","x_custom":true,"file":"/out/index.ios.bundle"}''\<close>

definition exampleJSON :: "nat json_module" where
  \<open>exampleJSON =
     \<lparr>JSON_parse = (\<lambda>text.
        if text = exampleMapText then Inr exampleMap
        else if text = normalizedMapText then Inr normalizedMap
        else if text = str ''[1,2]'' then Inr (JArray [JNumber 1, JNumber 2])
        else if text = str ''{"version":3}'' then Inr (JObject [(str ''version'', JNumber 3)])
        else if text = str ''null'' then Inr JNull
        else Inl SyntaxError),
      JSON_stringify = exampleStringify\<rparr>\<close>

text \<open>Script bodies and the new location \<^verbatim>\<open>file:///tmp/maps/new.map?v=1#h\<close>.\<close>

definition threeLineBody :: jsstring where
  "threeLineBody = str ''a();'' @ [0x0A] @ str ''//@ sourceMappingURL=old/path.map'' @ [0x0A] @
     str ''b();''"

definition blankLineBody :: jsstring where
  "blankLineBody = str ''//@ sourceMappingURL=old/path.map '' @ [0x0A, 0x0A] @ str ''next();''"

definition newMapUrl :: Url where
  "newMapUrl =
     \<lparr>protocol = Some (str ''file:''), slashes = Some True, auth = None,
      host = Some [], port = None, hostname = Some [], hash = Some (str ''#h''),
      search = Some (str ''?v=1''), query = Some (str ''v=1''),
      pathname = Some (str ''/tmp/maps/new.map''),
      path = Some (str ''/tmp/maps/new.map?v=1''),
      href = Some (str ''file:///tmp/maps/new.map?v=1#h'')\<rparr>"

text \<open>
  What \<^verbatim>\<open>getSourceMapURL\<close> returns at the example location for the reference
  \<^verbatim>\<open>/index.ios.map?platform=ios\<close>; the reference \<^verbatim>\<open>index.ios.map\<close> as \<^verbatim>\<open>url.parse\<close> returns it,
  and what \<^verbatim>\<open>getSourceMapURL\<close> returns for it.
\<close>

definition absoluteResult :: Url where
  "absoluteResult =
     \<lparr>protocol = Some (str ''http:''), slashes = Some True, auth = None,
      host = Some (str ''localhost:8081''), port = Some (str ''8081''),
      hostname = Some (str ''localhost''), hash = None,
      search = Some (str ''?platform=ios''), query = Some (str ''platform=ios''),
      pathname = Some (str ''/index.ios.map''),
      path = Some (str ''/index.ios.map?platform=ios''),
      href = Some (str ''http://localhost:8081/index.ios.map?platform=ios'')\<rparr>"

definition relativeReference :: Url where
  "relativeReference =
     emptyUrl\<lparr>pathname := Some (str ''index.ios.map''), path := Some (str ''index.ios.map''),
       href := Some (str ''index.ios.map'')\<rparr>"

definition relativeResult :: Url where
  "relativeResult =
     \<lparr>protocol = Some (str ''http:''), slashes = Some True, auth = None,
      host = Some (str ''localhost:8081''), port = Some (str ''8081''),
      hostname = Some (str ''localhost''), hash = None, search = None, query = None,
      pathname = Some (str ''/index.ios.map''), path = Some (str ''/index.ios.map''),
      href = Some (str ''http://localhost:8081/index.ios.map'')\<rparr>"

section \<open>Properties of the regular expression\<close>

lemma stripPrefix_Some: "stripPrefix p s = Some r \<longleftrightarrow> s = p @ r"
  by (induction p s rule: stripPrefix.induct) auto

lemma stripPrefix_append [simp]: "stripPrefix p (p @ r) = Some r"
  by (simp add: stripPrefix_Some)

lemma stripPrefix_None: "stripPrefix p s = None \<longleftrightarrow> (\<forall>r. s \<noteq> p @ r)"
  by (induction p s rule: stripPrefix.induct) auto

lemma lineTerminator_whiteSpace: "isLineTerminator c \<Longrightarrow> isWhiteSpace c"
  by (simp add: isWhiteSpace_def)

lemma matchSpacesEnd_sound:
  "matchSpacesEnd s = Some ws \<Longrightarrow> \<exists>post. s = ws @ post \<and> list_all isWhiteSpace ws \<and> atLineEnd post"
proof (induction s arbitrary: ws)
  case Nil
  then show ?case by simp
next
  case (Cons c cs)
  then show ?case
    by (auto split: if_splits option.splits)
qed

lemma matchSpacesEnd_iff:
  "matchSpacesEnd s \<noteq> None \<longleftrightarrow> list_all isWhiteSpace (lineRest s)"
proof (induction s)
  case Nil
  then show ?case by (simp add: lineRest_def)
next
  case (Cons c cs)
  then show ?case
    by (auto simp: lineRest_def lineTerminator_whiteSpace split: option.splits)
qed

lemma dropWhile_all: "list_all P xs \<Longrightarrow> dropWhile P (xs @ ys) = dropWhile P ys"
  by (induction xs) auto

lemma trimEnd_Cons_ws: "list_all isWhiteSpace xs \<Longrightarrow> trimEnd (c # xs) = (if isWhiteSpace c then [] else [c])"
  by (simp add: trimEnd_def dropWhile_all)

lemma trimEnd_Cons_nonws: "\<not> list_all isWhiteSpace xs \<Longrightarrow> trimEnd (c # xs) = c # trimEnd xs"
  by (auto simp: trimEnd_def dropWhile_append list_all_iff)

lemma trimEnd_Nil_iff: "trimEnd xs = [] \<longleftrightarrow> list_all isWhiteSpace xs"
  by (auto simp: trimEnd_def dropWhile_eq_Nil_conv list_all_iff)

lemma lineRest_Cons:
  "lineRest (c # cs) = (if isLineTerminator c then [] else c # lineRest cs)"
  by (simp add: lineRest_def)

lemma matchValue_None: "matchValue acc r = None \<longleftrightarrow> lineRest r = []"
proof (induction r arbitrary: acc)
  case Nil
  then show ?case by (simp add: lineRest_def)
next
  case (Cons c cs)
  show ?case
  proof (cases "matchSpacesEnd cs")
    case None
    then have "\<not> list_all isWhiteSpace (lineRest cs)"
      using matchSpacesEnd_iff [of cs] by simp
    then have "lineRest cs \<noteq> []" by auto
    with None Cons show ?thesis by (simp add: lineRest_Cons)
  next
    case (Some ws)
    then show ?thesis by (simp add: lineRest_Cons)
  qed
qed

lemma matchValue_Some:
  "matchValue acc r = Some (v, ws) \<Longrightarrow>
     v = acc @ commentValue r \<and>
     (\<exists>post. r = commentValue r @ ws @ post \<and> list_all isWhiteSpace ws \<and> atLineEnd post)"
proof (induction r arbitrary: acc)
  case Nil
  then show ?case by simp
next
  case (Cons c cs)
  from Cons.prems have nlt: "\<not> isLineTerminator c" by (auto split: if_splits)
  show ?case
  proof (cases "matchSpacesEnd cs")
    case None
    then have nws: "\<not> list_all isWhiteSpace (lineRest cs)"
      using matchSpacesEnd_iff [of cs] by simp
    then have ne: "trimEnd (lineRest cs) \<noteq> []" by (simp add: trimEnd_Nil_iff)
    from None Cons.prems nlt have rec: "matchValue (acc @ [c]) cs = Some (v, ws)" by simp
    have cv: "commentValue (c # cs) = c # commentValue cs"
      using nlt nws ne by (simp add: commentValue_def lineRest_Cons trimEnd_Cons_nonws)
    from Cons.IH [OF rec] show ?thesis by (auto simp: cv)
  next
    case (Some ws')
    then have allws: "list_all isWhiteSpace (lineRest cs)"
      using matchSpacesEnd_iff [of cs] by simp
    from Some Cons.prems nlt have v: "v = acc @ [c]" and ws: "ws = ws'" by auto
    have cv: "commentValue (c # cs) = [c]"
      using nlt allws by (simp add: commentValue_def lineRest_Cons trimEnd_Cons_ws)
    from matchSpacesEnd_sound [OF Some] show ?thesis by (auto simp: cv v ws)
  qed
qed

lemma matchAt_Some:
  "matchAt s = Some (m, v, ws) \<longleftrightarrow>
     (\<exists>r. s = str ''//'' @ [m] @ str '' sourceMappingURL='' @ r \<and>
          (m = cu CHR ''#'' \<or> m = cu CHR ''@'') \<and> matchValue [] r = Some (v, ws))"
proof
  assume a: "matchAt s = Some (m, v, ws)"
  from a obtain s1 where s1: "stripPrefix (str ''//'') s = Some s1"
    by (cases "stripPrefix (str ''//'') s") (simp_all add: matchAt_def)
  from a s1 obtain m' s2 where s2: "s1 = m' # s2"
    by (cases s1) (simp_all add: matchAt_def)
  from a s1 s2 have m': "m' = cu CHR ''#'' \<or> m' = cu CHR ''@''"
    by (simp add: matchAt_def split: if_splits)
  from a s1 s2 m' obtain s3 where s3: "stripPrefix (str '' sourceMappingURL='') s2 = Some s3"
    by (cases "stripPrefix (str '' sourceMappingURL='') s2") (simp_all add: matchAt_def)
  from a s1 s2 m' s3 have mv: "matchValue [] s3 = Some (v, ws)" and mm: "m' = m"
    by (simp_all add: matchAt_def split: option.splits)
  from s1 s2 s3 have "s = str ''//'' @ [m'] @ str '' sourceMappingURL='' @ s3"
    by (simp add: stripPrefix_Some)
  with m' mv mm show "\<exists>r. s = str ''//'' @ [m] @ str '' sourceMappingURL='' @ r \<and>
          (m = cu CHR ''#'' \<or> m = cu CHR ''@'') \<and> matchValue [] r = Some (v, ws)"
    by blast
next
  assume "\<exists>r. s = str ''//'' @ [m] @ str '' sourceMappingURL='' @ r \<and>
          (m = cu CHR ''#'' \<or> m = cu CHR ''@'') \<and> matchValue [] r = Some (v, ws)"
  then obtain r where r: "s = str ''//'' @ ([m] @ str '' sourceMappingURL='' @ r)"
    and m: "m = cu CHR ''#'' \<or> m = cu CHR ''@''" and mv: "matchValue [] r = Some (v, ws)"
    by auto
  have 1: "stripPrefix (str ''//'') s = Some (m # (str '' sourceMappingURL='' @ r))"
    unfolding r by (simp del: append_Cons)
  from m mv show "matchAt s = Some (m, v, ws)"
    unfolding matchAt_def 1 by auto
qed

lemma matchAt_None:
  "matchAt s = None \<longleftrightarrow>
     (\<forall>m r. s = str ''//'' @ [m] @ str '' sourceMappingURL='' @ r \<longrightarrow>
          (m = cu CHR ''#'' \<or> m = cu CHR ''@'') \<longrightarrow> lineRest r = [])"
proof
  assume n: "matchAt s = None"
  show "\<forall>m r. s = str ''//'' @ [m] @ str '' sourceMappingURL='' @ r \<longrightarrow>
          (m = cu CHR ''#'' \<or> m = cu CHR ''@'') \<longrightarrow> lineRest r = []"
  proof (intro allI impI)
    fix m r
    assume s: "s = str ''//'' @ [m] @ str '' sourceMappingURL='' @ r"
      and m: "m = cu CHR ''#'' \<or> m = cu CHR ''@''"
    show "lineRest r = []"
    proof (rule ccontr)
      assume "lineRest r \<noteq> []"
      then obtain v ws where "matchValue [] r = Some (v, ws)"
        using matchValue_None [of "[]" r] by (cases "matchValue [] r") auto
      with s m have "matchAt s = Some (m, v, ws)"
        unfolding matchAt_Some by blast
      with n show False by simp
    qed
  qed
next
  assume a: "\<forall>m r. s = str ''//'' @ [m] @ str '' sourceMappingURL='' @ r \<longrightarrow>
          (m = cu CHR ''#'' \<or> m = cu CHR ''@'') \<longrightarrow> lineRest r = []"
  show "matchAt s = None"
  proof (cases "matchAt s")
    case None
    then show ?thesis .
  next
    case (Some t)
    obtain m v ws where t: "t = (m, v, ws)" by (cases t) auto
    from Some t have "matchAt s = Some (m, v, ws)" by simp
    then obtain r where r: "s = str ''//'' @ [m] @ str '' sourceMappingURL='' @ r"
      and m: "m = cu CHR ''#'' \<or> m = cu CHR ''@''" and mv: "matchValue [] r = Some (v, ws)"
      unfolding matchAt_Some by blast
    from a r m have "lineRest r = []" by blast
    then have "matchValue [] r = None" by (simp add: matchValue_None)
    with mv show ?thesis by simp
  qed
qed

lemma split_Cons_cases:
  "(\<forall>pre rest. c # cs = pre @ rest \<longrightarrow> P pre rest) \<longleftrightarrow>
   (P [] (c # cs) \<and> (\<forall>pre rest. cs = pre @ rest \<longrightarrow> P (c # pre) rest))"
proof
  assume a: "\<forall>pre rest. c # cs = pre @ rest \<longrightarrow> P pre rest"
  have "P [] (c # cs)" using a by simp
  moreover have "\<forall>pre rest. cs = pre @ rest \<longrightarrow> P (c # pre) rest"
    using a by simp
  ultimately show "P [] (c # cs) \<and> (\<forall>pre rest. cs = pre @ rest \<longrightarrow> P (c # pre) rest)" ..
next
  assume a: "P [] (c # cs) \<and> (\<forall>pre rest. cs = pre @ rest \<longrightarrow> P (c # pre) rest)"
  show "\<forall>pre rest. c # cs = pre @ rest \<longrightarrow> P pre rest"
  proof (intro allI impI)
    fix pre rest assume e: "c # cs = pre @ rest"
    show "P pre rest"
    proof (cases pre)
      case Nil
      with e a show ?thesis by simp
    next
      case (Cons p ps)
      with e have "p = c" "cs = ps @ rest" by simp_all
      with a Cons show ?thesis by simp
    qed
  qed
qed

lemma searchFrom_None:
  "searchFrom i s = None \<longleftrightarrow> (\<forall>pre rest. s = pre @ rest \<longrightarrow> matchAt rest = None)"
proof (induction s arbitrary: i)
  case Nil
  then show ?case by simp
next
  case (Cons c cs)
  show ?case
    unfolding split_Cons_cases [where P = "\<lambda>pre rest. matchAt rest = None"]
    by (cases "matchAt (c # cs)") (simp_all add: Cons.IH)
qed

lemma searchFrom_Some:
  "searchFrom i s = Some M \<Longrightarrow>
     \<exists>pre rest r. s = pre @ rest \<and> matchAt rest = Some r \<and> M = mkMatch (i + length pre) r \<and>
        (\<forall>pre' rest'. s = pre' @ rest' \<longrightarrow> length pre' < length pre \<longrightarrow> matchAt rest' = None)"
proof (induction s arbitrary: i)
  case Nil
  then have "\<exists>r. [] = [] @ [] \<and> matchAt [] = Some r \<and> M = mkMatch (i + length ([]::jsstring)) r"
    by auto
  then show ?case by fastforce
next
  case (Cons c cs)
  show ?case
  proof (cases "matchAt (c # cs)")
    case None
    with Cons.prems have "searchFrom (Suc i) cs = Some M" by simp
    from Cons.IH [OF this] obtain pre rest r where
      *: "cs = pre @ rest" "matchAt rest = Some r" "M = mkMatch (Suc i + length pre) r"
      "\<forall>pre' rest'. cs = pre' @ rest' \<longrightarrow> length pre' < length pre \<longrightarrow> matchAt rest' = None"
      by blast
    have "\<forall>pre' rest'. c # cs = pre' @ rest' \<longrightarrow> length pre' < length (c # pre) \<longrightarrow> matchAt rest' = None"
      unfolding split_Cons_cases [where P = "\<lambda>pre' rest'. length pre' < length (c # pre) \<longrightarrow> matchAt rest' = None"]
      using None *(4) by simp
    with * show ?thesis
      by (intro exI [of _ "c # pre"] exI [of _ rest] exI [of _ r]) simp
  next
    case (Some r)
    with Cons.prems have "M = mkMatch i r" by simp
    with Some show ?thesis
      by (intro exI [of _ "[]"] exI [of _ "c # cs"] exI [of _ r]) simp
  qed
qed

lemma occursIn_iff: "occursIn p s \<longleftrightarrow> (\<exists>pre r. s = pre @ p @ r)"
proof (induction s)
  case Nil
  show ?case by (cases "stripPrefix p []") (auto simp: stripPrefix_Some stripPrefix_None)
next
  case (Cons c cs)
  have "(\<exists>pre r. c # cs = pre @ p @ r) \<longleftrightarrow> \<not> (\<forall>pre rest. c # cs = pre @ rest \<longrightarrow> (\<forall>r. rest \<noteq> p @ r))"
    by blast
  also have "\<dots> \<longleftrightarrow> \<not> ((\<forall>r. c # cs \<noteq> p @ r) \<and> (\<forall>pre rest. cs = pre @ rest \<longrightarrow> (\<forall>r. rest \<noteq> p @ r)))"
    unfolding split_Cons_cases [where P = "\<lambda>pre rest. \<forall>r. rest \<noteq> p @ r"] ..
  also have "\<dots> \<longleftrightarrow> (stripPrefix p (c # cs) \<noteq> None \<or> (\<exists>pre r. cs = pre @ p @ r))"
    by (auto simp: stripPrefix_None)
  finally show ?case using Cons by simp
qed

lemma exec_None_iff:
  "SourceMapURLRegex_exec body = None \<longleftrightarrow> (\<forall>pre m r. \<not> referenceCommentAt body pre m r)"
proof -
  have "SourceMapURLRegex_exec body = None \<longleftrightarrow> (\<forall>pre rest. body = pre @ rest \<longrightarrow> matchAt rest = None)"
    by (simp add: SourceMapURLRegex_exec_def searchFrom_None)
  also have "\<dots> \<longleftrightarrow> (\<forall>pre m r. \<not> referenceCommentAt body pre m r)"
    unfolding matchAt_None referenceCommentAt_def by blast
  finally show ?thesis .
qed

lemma locator_None_iff:
  "getSourceMapRelativeUrl body = None \<longleftrightarrow> (\<forall>pre m r. \<not> referenceCommentAt body pre m r)"
  unfolding exec_None_iff [symmetric]
  by (simp add: getSourceMapRelativeUrl_def split: option.splits)

lemma matchAt_comment:
  assumes "m = cu CHR ''#'' \<or> m = cu CHR ''@''" and "lineRest r \<noteq> []"
  shows "matchAt (str ''//'' @ [m] @ str '' sourceMappingURL='' @ r) \<noteq> None"
proof -
  from assms(2) obtain v ws where "matchValue [] r = Some (v, ws)"
    using matchValue_None [of "[]" r] by (cases "matchValue [] r") auto
  with assms(1) have "matchAt (str ''//'' @ [m] @ str '' sourceMappingURL='' @ r) = Some (m, v, ws)"
    unfolding matchAt_Some by blast
  then show ?thesis by simp
qed

lemma exec_first:
  assumes c: "referenceCommentAt body pre m r"
    and first: "\<forall>pre' m' r'. referenceCommentAt body pre' m' r' \<longrightarrow> length pre \<le> length pre'"
  shows "\<exists>ws post. SourceMapURLRegex_exec body =
            Some (mkMatch (length pre) (m, commentValue r, ws)) \<and>
          r = commentValue r @ ws @ post \<and> list_all isWhiteSpace ws \<and> atLineEnd post"
proof -
  from c have "SourceMapURLRegex_exec body \<noteq> None"
    unfolding exec_None_iff by blast
  then obtain M where M: "searchFrom 0 body = Some M"
    by (auto simp: SourceMapURLRegex_exec_def)
  from searchFrom_Some [OF M] obtain p rest t where
    b: "body = p @ rest" and t: "matchAt rest = Some t" and MM: "M = mkMatch (length p) t"
    and min: "\<forall>pre' rest'. body = pre' @ rest' \<longrightarrow> length pre' < length p \<longrightarrow> matchAt rest' = None"
    by auto
  obtain m' v ws where tt: "t = (m', v, ws)" by (cases t) auto
  from t tt have "matchAt rest = Some (m', v, ws)" by simp
  then obtain r' where rest: "rest = str ''//'' @ [m'] @ str '' sourceMappingURL='' @ r'"
    and m': "m' = cu CHR ''#'' \<or> m' = cu CHR ''@''" and mv: "matchValue [] r' = Some (v, ws)"
    unfolding matchAt_Some by blast
  from mv have "lineRest r' \<noteq> []" using matchValue_None [of "[]" r'] by auto
  with b rest m' have c': "referenceCommentAt body p m' r'"
    by (simp add: referenceCommentAt_def)
  with first have le: "length pre \<le> length p" by blast
  have ne: "matchAt (str ''//'' @ [m] @ str '' sourceMappingURL='' @ r) \<noteq> None"
    using c matchAt_comment by (simp add: referenceCommentAt_def)
  have bd: "body = pre @ (str ''//'' @ [m] @ str '' sourceMappingURL='' @ r)"
    using c by (simp add: referenceCommentAt_def)
  have "\<not> length pre < length p"
  proof
    assume "length pre < length p"
    with min [rule_format, OF bd] have "matchAt (str ''//'' @ [m] @ str '' sourceMappingURL='' @ r) = None" .
    with ne show False by simp
  qed
  with le have len: "length pre = length p" by simp
  from c b rest have "pre @ (str ''//'' @ [m] @ str '' sourceMappingURL='' @ r) =
      p @ (str ''//'' @ [m'] @ str '' sourceMappingURL='' @ r')"
    by (simp add: referenceCommentAt_def)
  with len have "pre = p" and "str ''//'' @ [m] @ str '' sourceMappingURL='' @ r =
      str ''//'' @ [m'] @ str '' sourceMappingURL='' @ r'"
    by simp_all
  then have eq: "m = m'" "r = r'" by simp_all
  from matchValue_Some [OF mv] obtain post where
    "v = commentValue r'" "r' = commentValue r' @ ws @ post" "list_all isWhiteSpace ws" "atLineEnd post"
    by auto
  with M MM tt eq len show ?thesis
    by (auto simp: SourceMapURLRegex_exec_def)
qed

lemma exec_index_least:
  assumes "SourceMapURLRegex_exec body = Some M" and c: "referenceCommentAt body pre' m' r'"
  shows "index M \<le> length pre'"
proof (rule ccontr)
  assume n: "\<not> index M \<le> length pre'"
  from assms(1) have "searchFrom 0 body = Some M" by (simp add: SourceMapURLRegex_exec_def)
  from searchFrom_Some [OF this] obtain p rest t where
    b: "body = p @ rest" and MM: "M = mkMatch (0 + length p) t"
    and min: "\<forall>pre' rest'. body = pre' @ rest' \<longrightarrow> length pre' < length p \<longrightarrow> matchAt rest' = None"
    by blast
  have i: "index M = length p" by (cases t) (simp add: MM mkMatch_def)
  have bd: "body = pre' @ (str ''//'' @ [m'] @ str '' sourceMappingURL='' @ r')"
    using c by (simp add: referenceCommentAt_def)
  from n i have "length pre' < length p" by simp
  with min [rule_format, OF bd]
  have "matchAt (str ''//'' @ [m'] @ str '' sourceMappingURL='' @ r') = None" .
  moreover have "matchAt (str ''//'' @ [m'] @ str '' sourceMappingURL='' @ r') \<noteq> None"
    using c matchAt_comment by (simp add: referenceCommentAt_def)
  ultimately show False by simp
qed

lemma getSourceMapURL_None:
  "getSourceMapRelativeUrl body = None \<Longrightarrow> getSourceMapURL U scriptUrl body = Inr None"
  by (simp add: getSourceMapURL_def)

lemma marker_literals:
  "str ''//'' @ [cu CHR ''#''] @ str '' sourceMappingURL='' @ r = str ''//# sourceMappingURL='' @ r"
  "str ''//'' @ [cu CHR ''@''] @ str '' sourceMappingURL='' @ r = str ''//@ sourceMappingURL='' @ r"
  by (simp_all add: str_def)

lemma matchSpacesEnd_complete:
  "list_all isWhiteSpace ws \<Longrightarrow> atLineEnd post \<Longrightarrow> matchSpacesEnd (ws @ post) \<noteq> None"
proof (induction ws)
  case Nil
  then show ?case by (cases post) (auto simp: lineTerminator_whiteSpace split: option.splits)
next
  case (Cons c ws)
  then show ?case by (auto split: option.splits)
qed

lemma matchSpacesEnd_greedy:
  "matchSpacesEnd s = Some ws \<Longrightarrow> s = ws' @ post' \<Longrightarrow> list_all isWhiteSpace ws' \<Longrightarrow>
     atLineEnd post' \<Longrightarrow> length ws' \<le> length ws"
proof (induction s arbitrary: ws ws')
  case Nil
  then show ?case by simp
next
  case (Cons c cs)
  show ?case
  proof (cases ws')
    case Nil
    then show ?thesis by simp
  next
    case (Cons d ws'')
    with Cons.prems have d: "d = c" and cs: "cs = ws'' @ post'" and c: "isWhiteSpace c"
      and all: "list_all isWhiteSpace ws''" by simp_all
    from matchSpacesEnd_complete [OF all Cons.prems(4)] cs obtain w where
      w: "matchSpacesEnd cs = Some w" by auto
    with c Cons.prems(1) have ws: "ws = c # w" by simp
    from Cons.IH [OF w cs all Cons.prems(4)] have "length ws'' \<le> length w" .
    with ws Cons show ?thesis by simp
  qed
qed

lemma matchValue_spaces:
  "matchValue acc r = Some (v, ws) \<Longrightarrow>
     \<exists>post. r = commentValue r @ ws @ post \<and> matchSpacesEnd (ws @ post) = Some ws"
proof (induction r arbitrary: acc)
  case Nil
  then show ?case by simp
next
  case (Cons c cs)
  from Cons.prems have nlt: "\<not> isLineTerminator c" by (auto split: if_splits)
  show ?case
  proof (cases "matchSpacesEnd cs")
    case None
    then have nws: "\<not> list_all isWhiteSpace (lineRest cs)"
      using matchSpacesEnd_iff [of cs] by simp
    then have ne: "trimEnd (lineRest cs) \<noteq> []" by (simp add: trimEnd_Nil_iff)
    from None Cons.prems nlt have rec: "matchValue (acc @ [c]) cs = Some (v, ws)" by simp
    have cv: "commentValue (c # cs) = c # commentValue cs"
      using nlt nws ne by (simp add: commentValue_def lineRest_Cons trimEnd_Cons_nonws)
    from Cons.IH [OF rec] show ?thesis by (auto simp: cv)
  next
    case (Some ws')
    then have allws: "list_all isWhiteSpace (lineRest cs)"
      using matchSpacesEnd_iff [of cs] by simp
    from Some Cons.prems nlt have ws: "ws = ws'" by auto
    have cv: "commentValue (c # cs) = [c]"
      using nlt allws by (simp add: commentValue_def lineRest_Cons trimEnd_Cons_ws)
    from matchSpacesEnd_sound [OF Some] obtain post where post: "cs = ws' @ post" by blast
    with Some have "matchSpacesEnd (ws' @ post) = Some ws'" by simp
    moreover have "c # cs = commentValue (c # cs) @ ws' @ post"
      unfolding cv using post by simp
    ultimately show ?thesis unfolding ws by blast
  qed
qed

lemma getSubstitution_plain:
  "cu CHR ''$'' \<notin> set repl \<Longrightarrow> getSubstitution M preceding following repl = repl"
  by (induction M preceding following repl rule: getSubstitution.induct) auto

lemma exec_first_greedy:
  assumes c: "referenceCommentAt body pre m r"
    and first: "\<forall>pre' m' r'. referenceCommentAt body pre' m' r' \<longrightarrow> length pre \<le> length pre'"
  shows "\<exists>ws post. SourceMapURLRegex_exec body =
            Some (mkMatch (length pre) (m, commentValue r, ws)) \<and>
          r = commentValue r @ ws @ post \<and> list_all isWhiteSpace ws \<and> atLineEnd post \<and>
          (\<forall>ws' post'. r = commentValue r @ ws' @ post' \<and> list_all isWhiteSpace ws' \<and>
              atLineEnd post' \<longrightarrow> length ws' \<le> length ws)"
proof -
  from exec_first [OF assms] obtain ws post where
    M: "SourceMapURLRegex_exec body = Some (mkMatch (length pre) (m, commentValue r, ws))"
    and r: "r = commentValue r @ ws @ post" and ws: "list_all isWhiteSpace ws"
    and post: "atLineEnd post"
    by blast
  from c have "matchAt (str ''//'' @ [m] @ str '' sourceMappingURL='' @ r) \<noteq> None"
    using matchAt_comment by (simp add: referenceCommentAt_def)
  have ne: "lineRest r \<noteq> []" using c by (simp add: referenceCommentAt_def)
  then obtain v w where mv: "matchValue [] r = Some (v, w)"
    using matchValue_None [of "[]" r] by (cases "matchValue [] r") auto
  have mm: "m = cu CHR ''#'' \<or> m = cu CHR ''@''" using c by (simp add: referenceCommentAt_def)
  have bd: "body = pre @ (str ''//'' @ [m] @ str '' sourceMappingURL='' @ r)"
    using c by (simp add: referenceCommentAt_def)
  from mv mm have at: "matchAt (str ''//'' @ [m] @ str '' sourceMappingURL='' @ r) = Some (m, v, w)"
    unfolding matchAt_Some by blast
  from M have sf: "searchFrom 0 body = Some (mkMatch (length pre) (m, commentValue r, ws))"
    by (simp add: SourceMapURLRegex_exec_def)
  from searchFrom_Some [OF sf] obtain p rest t where
    b: "body = p @ rest" and t: "matchAt rest = Some t"
    and MM: "mkMatch (length pre) (m, commentValue r, ws) = mkMatch (0 + length p) t"
    by blast
  obtain m2 v2 w2 where tt: "t = (m2, v2, w2)" by (cases t) auto
  from MM tt have len: "length pre = length p" and eqs: "ws = w2"
    by (auto simp: mkMatch_def)
  from b bd len have "rest = str ''//'' @ [m] @ str '' sourceMappingURL='' @ r" by simp
  with t tt at have "w2 = w" by simp
  note eqs
  with \<open>w2 = w\<close> have wsw: "ws = w" by simp
  from matchValue_spaces [OF mv] obtain post2 where
    r2: "r = commentValue r @ w @ post2" and g: "matchSpacesEnd (w @ post2) = Some w"
    by blast
  have "\<forall>ws' post'. r = commentValue r @ ws' @ post' \<and> list_all isWhiteSpace ws' \<and>
              atLineEnd post' \<longrightarrow> length ws' \<le> length ws"
  proof (intro allI impI)
    fix ws' post'
    assume a: "r = commentValue r @ ws' @ post' \<and> list_all isWhiteSpace ws' \<and> atLineEnd post'"
    with r2 have "commentValue r @ w @ post2 = commentValue r @ ws' @ post'" by simp
    then have "w @ post2 = ws' @ post'" by simp
    from matchSpacesEnd_greedy [OF g this] a show "length ws' \<le> length ws"
      by (simp add: wsw)
  qed
  with M r ws post show ?thesis by blast
qed

lemma String_replace_first:
  assumes c: "referenceCommentAt body pre m r"
    and first: "\<forall>pre' m' r'. referenceCommentAt body pre' m' r' \<longrightarrow> length pre \<le> length pre'"
    and plain: "cu CHR ''$'' \<notin> set repl"
  shows "\<exists>ws post. r = commentValue r @ ws @ post \<and> list_all isWhiteSpace ws \<and> atLineEnd post \<and>
          (\<forall>ws' post'. r = commentValue r @ ws' @ post' \<and> list_all isWhiteSpace ws' \<and>
              atLineEnd post' \<longrightarrow> length ws' \<le> length ws) \<and>
          String_replace body repl = pre @ repl @ post"
proof -
  from exec_first_greedy [OF c first] obtain ws post where
    M: "SourceMapURLRegex_exec body = Some (mkMatch (length pre) (m, commentValue r, ws))"
    and r: "r = commentValue r @ ws @ post" and ws: "list_all isWhiteSpace ws"
    and post: "atLineEnd post"
    and mx: "\<forall>ws' post'. r = commentValue r @ ws' @ post' \<and> list_all isWhiteSpace ws' \<and>
              atLineEnd post' \<longrightarrow> length ws' \<le> length ws"
    by blast
  let ?mt = "str ''//'' @ [m] @ str '' sourceMappingURL='' @ commentValue r @ ws"
  have "body = pre @ (str ''//'' @ [m] @ str '' sourceMappingURL='' @ r)"
    using c by (simp add: referenceCommentAt_def)
  also have "str ''//'' @ [m] @ str '' sourceMappingURL='' @ r = ?mt @ post"
    using r by (metis append.assoc)
  finally have bd: "body = pre @ ?mt @ post" .
  have 1: "take (length pre) body = pre" by (simp add: bd)
  have 2: "drop (length pre + length ?mt) body = post"
    unfolding bd by (simp del: append_assoc add: append_assoc [symmetric])
  have "String_replace body repl = pre @ repl @ post"
    unfolding String_replace_def M
    by (simp add: mkMatch_def Let_def 1 getSubstitution_plain [OF plain] del: append_assoc) (use 2 in simp)
  with r ws post mx show ?thesis by blast
qed

lemma literal_plain: "cu CHR ''$'' \<notin> set (str ''//# sourceMappingURL='')"
  by (simp add: str_def cu_def)

section \<open>Properties of the normalizer\<close>

lemma mapSourcePaths_strings:
  "mapSourcePaths P root (map JString sources) =
     Inr (map (\<lambda>s. JString (updateSourceMapPath P s root)) sources)"
  by (induction sources) auto

lemma mapSourcePaths_Inr_iff:
  "(\<exists>ys. mapSourcePaths P root xs = Inr ys) \<longleftrightarrow> list_all isJString xs"
proof (induction xs)
  case Nil
  then show ?case by simp
next
  case (Cons x xs)
  then show ?case by (cases x) (auto split: sum.splits)
qed

lemma try_not_document:
  assumes "JSON_parse J body = Inr v" and "\<not> isSourceMapDocument v"
  shows "\<exists>e. updateSourceMapFile_try J P body scriptPath root = Inl e"
proof (cases v)
  case (JObject props)
  show ?thesis
  proof (cases "map_of props (str ''sources'')")
    case None
    with assms JObject show ?thesis
      by (simp add: updateSourceMapFile_try_def getProperty_sources_def sources_map_def)
  next
    case (Some x)
    show ?thesis
    proof (cases x)
      case (JArray elems)
      with assms JObject Some have "\<not> list_all isJString elems"
        by (simp add: isSourceMapDocument_def)
      then have "\<nexists>ys. mapSourcePaths P root elems = Inr ys"
        by (simp add: mapSourcePaths_Inr_iff)
      then obtain e where "mapSourcePaths P root elems = Inl e"
        by (cases "mapSourcePaths P root elems") auto
      with assms JObject Some JArray show ?thesis
        by (simp add: updateSourceMapFile_try_def getProperty_sources_def sources_map_def)
    qed (use assms JObject Some in
        \<open>simp_all add: updateSourceMapFile_try_def getProperty_sources_def sources_map_def\<close>)
  qed
qed (use assms in \<open>simp_all add: updateSourceMapFile_try_def getProperty_sources_def sources_map_def\<close>)

lemma try_document:
  assumes "JSON_parse J body = Inr (JObject props)"
    and "map_of props (str ''sources'') = Some (JArray (map JString sources))"
  shows "updateSourceMapFile_try J P body scriptPath root =
     Inr (JSON_stringify J (JObject
       (AList.update (str ''file'') (JString scriptPath)
         (AList.update (str ''sourceRoot'') (JString [])
           (AList.delete (str ''sourcesContent'')
             (AList.update (str ''sources'')
                (JArray (map (\<lambda>s. JString (updateSourceMapPath P s root)) sources)) props))))))"
  using assms
  by (simp add: updateSourceMapFile_try_def getProperty_sources_def sources_map_def
      mapSourcePaths_strings setProperty_def deleteProperty_def)

lemma key_distinct:
  "str ''file'' \<noteq> str ''sourceRoot''" "str ''file'' \<noteq> str ''sourcesContent''"
  "str ''file'' \<noteq> str ''sources''" "str ''sourceRoot'' \<noteq> str ''sourcesContent''"
  "str ''sourceRoot'' \<noteq> str ''sources''" "str ''sourcesContent'' \<noteq> str ''sources''"
  by (simp_all add: str_def cu_def)

lemma updateSourceMapFile_document:
  assumes "JSON_parse J body = Inr (JObject props)"
    and "map_of props (str ''sources'') = Some (JArray (map JString sources))"
  shows "updateSourceMapFile J P body scriptPath root =
     Inr (JSON_stringify J (JObject
       (AList.update (str ''file'') (JString scriptPath)
         (AList.update (str ''sourceRoot'') (JString [])
           (AList.delete (str ''sourcesContent'')
             (AList.update (str ''sources'')
                (JArray (map (\<lambda>s. JString (updateSourceMapPath P s root)) sources)) props))))))"
  by (simp add: updateSourceMapFile_def try_document [OF assms])

section \<open>Properties of \<^verbatim>\<open>path.posix\<close>\<close>

lemma splitOn_nonempty [simp]: "splitOn sep s \<noteq> []"
  by (induction s) (auto split: list.splits)

lemma splitOn_append: "splitOn sep (a @ sep # b) = splitOn sep a @ splitOn sep b"
proof (induction a)
  case Nil
  then show ?case by simp
next
  case (Cons c a)
  then show ?case
    by (cases "splitOn sep a") (auto split: list.splits)
qed

lemma splitOn_no_sep: "sep \<notin> set s \<Longrightarrow> splitOn sep s = [s]"
  by (induction s) auto

lemma splitOn_parts: "p \<in> set (splitOn sep s) \<Longrightarrow> sep \<notin> set p"
proof (induction s arbitrary: p)
  case Nil
  then show ?case by simp
next
  case (Cons c s)
  then show ?case
    by (cases "splitOn sep s") (auto split: if_splits)
qed

lemma splitOn_joinWith:
  "parts \<noteq> [] \<Longrightarrow> list_all (\<lambda>p. sep \<notin> set p) parts \<Longrightarrow> splitOn sep (joinWith [sep] parts) = parts"
proof (induction "[sep]" parts rule: joinWith.induct)
  case 1
  then show ?case by simp
next
  case (2 p)
  then show ?case by (simp add: splitOn_no_sep)
next
  case (3 p q ps)
  then show ?case by (simp add: splitOn_append splitOn_no_sep)
qed

lemma normalizeArray_append:
  "normalizeArray (xs @ ys) al res = normalizeArray ys al (normalizeArray xs al res)"
  by (induction xs al res rule: normalizeArray.induct) auto

lemma normalizeArray_normal:
  "isNormalParts xs \<Longrightarrow> normalizeArray xs al res = res @ xs"
  by (induction xs al res rule: normalizeArray.induct) (auto simp: isNormalParts_def)

lemma normalizeArray_ups_pop:
  "isNormalParts res \<Longrightarrow> k \<le> length res \<Longrightarrow>
     normalizeArray (replicate k (str ''..'')) al res = take (length res - k) res"
proof (induction k arbitrary: res)
  case 0
  then show ?case by simp
next
  case (Suc k)
  then have ne: "res \<noteq> []" by auto
  have dd: "str ''..'' \<noteq> [] \<and> str ''..'' \<noteq> str ''.''" by (simp add: str_def)
  have "last res \<in> set res" using ne by simp
  with Suc.prems(1) have l: "last res \<noteq> str ''..''"
    by (auto simp: isNormalParts_def list_all_iff)
  have nb: "isNormalParts (butlast res)"
    using Suc.prems(1) by (auto simp: isNormalParts_def list_all_iff dest: in_set_butlastD)
  have "normalizeArray (replicate (Suc k) (str ''..'')) al res =
      normalizeArray (replicate k (str ''..'')) al (butlast res)"
    using ne l dd by simp
  also have "\<dots> = take (length (butlast res) - k) (butlast res)"
    using Suc.prems by (intro Suc.IH nb) simp
  also have "\<dots> = take (length res - Suc k) res"
    by (simp add: butlast_conv_take min_def)
  finally show ?case .
qed

lemma normalizeArray_ups_push:
  "normalizeArray (replicate k (str ''..'')) True (replicate j (str ''..'')) =
     replicate (j + k) (str ''..'')"
proof (induction k arbitrary: j)
  case 0
  then show ?case by simp
next
  case (Suc k)
  have dd: "str ''..'' \<noteq> [] \<and> str ''..'' \<noteq> str ''.''" by (simp add: str_def)
  have "normalizeArray (replicate (Suc k) (str ''..'')) True (replicate j (str ''..'')) =
      normalizeArray (replicate k (str ''..'')) True (replicate (Suc j) (str ''..''))"
    using dd by (cases j) (simp_all add: replicate_append_same)
  then show ?case using Suc.IH [of "Suc j"] by simp
qed

lemma isNormalParts_butlast: "isNormalParts res \<Longrightarrow> isNormalParts (butlast res)"
  by (auto simp: isNormalParts_def list_all_iff dest: in_set_butlastD)

lemma isNormalParts_snoc:
  "isNormalParts res \<Longrightarrow> p \<noteq> [] \<Longrightarrow> cu CHR ''/'' \<notin> set p \<Longrightarrow> p \<noteq> str ''.'' \<Longrightarrow>
     p \<noteq> str ''..'' \<Longrightarrow> isNormalParts (res @ [p])"
  by (simp add: isNormalParts_def)

lemma normalizeArray_is_normal:
  "isNormalParts res \<Longrightarrow> list_all (\<lambda>p. cu CHR ''/'' \<notin> set p) xs \<Longrightarrow>
     isNormalParts (normalizeArray xs False res)"
proof (induction xs arbitrary: res)
  case Nil
  then show ?case by simp
next
  case (Cons p parts)
  from Cons.prems(2) have ps: "list_all (\<lambda>p. cu CHR ''/'' \<notin> set p) parts"
    and p: "cu CHR ''/'' \<notin> set p" by simp_all
  consider "p = [] \<or> p = str ''.''" | "p \<noteq> []" "p \<noteq> str ''.''" "p = str ''..''"
    | "p \<noteq> []" "p \<noteq> str ''.''" "p \<noteq> str ''..''" by blast
  then show ?case
  proof cases
    case 1
    then show ?thesis using Cons.IH [OF Cons.prems(1) ps] by auto
  next
    case 2
    then show ?thesis
      using Cons.IH [OF Cons.prems(1) ps] Cons.IH [OF isNormalParts_butlast [OF Cons.prems(1)] ps]
      by simp
  next
    case 3
    then show ?thesis
      using Cons.IH [OF isNormalParts_snoc [OF Cons.prems(1) 3(1) p 3(2) 3(3)] ps]
      by simp
  qed
qed

lemma slash_str: "str ''/'' = [cu CHR ''/'']"
  by (simp add: str_def)

lemma isNormalParts_Nil [simp]: "isNormalParts []"
  by (simp add: isNormalParts_def)

lemma splitOn_all_no_slash: "list_all (\<lambda>p. sep \<notin> set p) (splitOn sep s)"
  by (simp add: list_all_iff splitOn_parts)

lemma resolvedParts_normal: "isNormalParts (resolvedParts cwd x)"
  unfolding resolvedParts_def
  by (rule normalizeArray_is_normal) (simp_all add: splitOn_all_no_slash)

lemma normalizeArray_empty_last:
  "normalizeArray (xs @ [[]]) al res = normalizeArray xs al res"
  by (simp add: normalizeArray_append)

lemma splitOn_snoc_sep: "splitOn sep (s @ [sep]) = splitOn sep s @ [[]]"
  using splitOn_append [of sep s "[]"] by simp

lemma posix_resolve_abs:
  assumes "posix_isAbsolute cwd"
  shows "posix_resolve cwd [x] = absPath (resolvedParts cwd x)"
proof -
  have cwdne: "cwd \<noteq> []" using assms by (auto simp: posix_isAbsolute_def)
  have loop: "resolveLoop ([x] @ [cwd]) [] False =
      ((if posix_isAbsolute x then x @ str ''/''
        else if x = [] then cwd @ str ''/''
        else cwd @ str ''/'' @ x @ str ''/''), True)"
  proof (cases "x = []")
    case True
    then show ?thesis
      using assms cwdne
      by (simp add: posix_isAbsolute_def slash_str)
  next
    case False
    then show ?thesis using assms cwdne by simp
  qed
  have ne: "str ''/'' @ p \<noteq> []" for p :: jsstring by (simp add: str_def)
  show ?thesis
    by (simp only: posix_resolve_def rev.simps append_Nil loop prod.case if_True if_False
        Let_def ne absPath_def resolvedParts_def simp_thms)
qed

lemma joinWith_eq_Nil:
  "list_all (\<lambda>p. p \<noteq> []) parts \<Longrightarrow> joinWith sep parts = [] \<longleftrightarrow> parts = []"
  by (induction sep parts rule: joinWith.induct) auto

lemma trimArray_nonempty_parts:
  "list_all (\<lambda>p. p \<noteq> []) parts \<Longrightarrow> trimArray parts = parts"
proof -
  assume a: "list_all (\<lambda>p. p \<noteq> []) parts"
  then have 1: "dropWhile (\<lambda>p. p = []) parts = parts"
    by (cases parts) auto
  from a have "list_all (\<lambda>p. p \<noteq> []) (rev parts)" by (simp add: list_all_iff)
  then have 2: "dropWhile (\<lambda>p. p = []) (rev parts) = rev parts"
    by (cases "rev parts") auto
  show ?thesis by (simp add: trimArray_def 1 2)
qed

lemma normal_nonempty: "isNormalParts t \<Longrightarrow> list_all (\<lambda>p. p \<noteq> []) t"
  by (simp add: isNormalParts_def list_all_iff)

lemma normal_no_slash: "isNormalParts t \<Longrightarrow> list_all (\<lambda>p. cu CHR ''/'' \<notin> set p) t"
  by (simp add: isNormalParts_def list_all_iff)

lemma parts_of_absPath:
  assumes "isNormalParts t"
  shows "trimArray (splitOn (cu CHR ''/'') (drop (Suc 0) (absPath t))) = t"
proof (cases "t = []")
  case True
  then show ?thesis by (simp add: absPath_def str_def trimArray_def)
next
  case False
  have "splitOn (cu CHR ''/'') (joinWith [cu CHR ''/''] t) = t"
    using False normal_no_slash [OF assms] by (rule splitOn_joinWith)
  then show ?thesis
    using trimArray_nonempty_parts [OF normal_nonempty [OF assms]]
    by (simp add: absPath_def slash_str)
qed

lemma posix_relative_abs:
  assumes "posix_isAbsolute cwd"
  shows "posix_relative cwd from to =
     joinWith (str ''/'')
       (replicate (length (resolvedParts cwd from) -
                   samePartsLength (resolvedParts cwd from) (resolvedParts cwd to)) (str ''..'') @
        drop (samePartsLength (resolvedParts cwd from) (resolvedParts cwd to)) (resolvedParts cwd to))"
  unfolding posix_relative_def
  by (simp add: posix_resolve_abs [OF assms] parts_of_absPath resolvedParts_normal Let_def)

lemma samePartsLength_le: "samePartsLength a b \<le> length a \<and> samePartsLength a b \<le> length b"
  by (induction a b rule: samePartsLength.induct) auto

lemma samePartsLength_take: "take (samePartsLength a b) a = take (samePartsLength a b) b"
  by (induction a b rule: samePartsLength.induct) auto

lemma joinLoop_parts:
  "list_all (\<lambda>p. p \<noteq> []) ps \<Longrightarrow> ps \<noteq> [] \<Longrightarrow>
     joinLoop ps acc = (if acc = [] then joinWith (str ''/'') ps else acc @ str ''/'' @ joinWith (str ''/'') ps)"
proof (induction ps arbitrary: acc)
  case Nil
  then show ?case by simp
next
  case (Cons p ps)
  show ?case
  proof (cases ps)
    case Nil
    with Cons.prems show ?thesis by simp
  next
    case (Cons q qs)
    show ?thesis
    proof (cases "acc = []")
      case True
      with Cons Cons.prems Cons.IH [of p] show ?thesis by simp
    next
      case False
      with Cons Cons.prems Cons.IH [of "acc @ str ''/'' @ p"] show ?thesis
        by (simp add: str_def)
    qed
  qed
qed

lemma dots_props:
  "str ''..'' \<noteq> []" "cu CHR ''/'' \<notin> set (str ''..'')" "str ''..'' \<noteq> str ''.''"
  "str ''.'' \<noteq> []" "cu CHR ''/'' \<notin> set (str ''.'')" "\<not> posix_isAbsolute (str ''.'')"
  "\<not> posix_isAbsolute (str ''..'')"
  by (simp_all add: str_def cu_def posix_isAbsolute_def)

lemma joinWith_hd:
  "ps \<noteq> [] \<Longrightarrow> hd ps \<noteq> [] \<Longrightarrow> joinWith sep ps \<noteq> [] \<and> hd (joinWith sep ps) = hd (hd ps)"
  by (induction sep ps rule: joinWith.induct) auto

lemma joinWith_last_ne:
  "ps \<noteq> [] \<Longrightarrow> last ps \<noteq> [] \<Longrightarrow> joinWith sep ps \<noteq> []"
  by (induction sep ps rule: joinWith.induct) auto

lemma joinWith_last:
  "ps \<noteq> [] \<Longrightarrow> last ps \<noteq> [] \<Longrightarrow> last (joinWith sep ps) = last (last ps)"
proof (induction sep ps rule: joinWith.induct)
  case (3 sep p q ps)
  have l: "last (q # ps) \<noteq> []" using "3.prems" by simp
  have ne: "joinWith sep (q # ps) \<noteq> []"
    by (rule joinWith_last_ne) (use l in simp_all)
  have "last (joinWith sep (p # q # ps)) = last (joinWith sep (q # ps))"
    using ne by simp
  also have "\<dots> = last (last (q # ps))"
    by (rule "3.IH") (use l in simp_all)
  finally show ?case by simp
qed simp_all

lemma relParts_props:
  assumes "isNormalParts rest"
  shows "list_all (\<lambda>p. p \<noteq> []) (replicate k (str ''..'') @ rest)"
    and "list_all (\<lambda>p. cu CHR ''/'' \<notin> set p) (replicate k (str ''..'') @ rest)"
proof -
  have 1: "list_all (\<lambda>p. p \<noteq> []) (replicate k (str ''..''))"
    by (induction k) (simp_all add: dots_props(1))
  have 2: "list_all (\<lambda>p. cu CHR ''/'' \<notin> set p) (replicate k (str ''..''))"
    by (induction k) (simp_all add: dots_props(2))
  show "list_all (\<lambda>p. p \<noteq> []) (replicate k (str ''..'') @ rest)"
    using 1 normal_nonempty [OF assms] by simp
  show "list_all (\<lambda>p. cu CHR ''/'' \<notin> set p) (replicate k (str ''..'') @ rest)"
    using 2 normal_no_slash [OF assms] by simp
qed

lemma normalizeArray_relParts:
  assumes "isNormalParts rest"
  shows "normalizeArray (replicate k (str ''..'') @ rest) True [] = replicate k (str ''..'') @ rest"
  using normalizeArray_ups_push [of k 0] assms
  by (simp add: normalizeArray_append normalizeArray_normal)

lemma not_absolute_iff: "s \<noteq> [] \<Longrightarrow> posix_isAbsolute s \<longleftrightarrow> hd s = cu CHR ''/''"
  by (cases s) (auto simp: posix_isAbsolute_def)

lemma makeUnixStylePath_relParts:
  fixes k :: nat
  assumes rest: "isNormalParts rest"
  defines "q \<equiv> replicate k (str ''..'') @ rest"
  shows "makeUnixStylePath (posixPath cwd) (joinWith (str ''/'') q) =
           (if q = [] then str ''.'' else joinWith (str ''/'') q)"
proof (cases "q = []")
  case True
  then show ?thesis
    by (simp add: makeUnixStylePath_def posixPath_def posix_join_def posix_normalize_def
        posix_isAbsolute_def Let_def dots_props)
next
  case False
  have ne: "list_all (\<lambda>p. p \<noteq> []) q" and ns: "list_all (\<lambda>p. cu CHR ''/'' \<notin> set p) q"
    unfolding q_def using relParts_props [OF rest] by simp_all
  have sp: "splitOn (cu CHR ''/'') (joinWith (str ''/'') q) = q"
    using splitOn_joinWith [OF False ns] by (simp add: slash_str)
  have jl: "joinLoop q [] = joinWith (str ''/'') q"
    using joinLoop_parts [OF ne False, of "[]"] by simp
  have hq: "hd q \<noteq> []" and lq: "last q \<noteq> []"
    using ne False by (auto simp: list_all_iff)
  have hns: "cu CHR ''/'' \<notin> set (hd q)" and lns: "cu CHR ''/'' \<notin> set (last q)"
    using ns False by (auto simp: list_all_iff)
  from joinWith_hd [OF False hq] have jne: "joinWith (str ''/'') q \<noteq> []"
    and hd: "hd (joinWith (str ''/'') q) = hd (hd q)" by simp_all
  from hns hq have "hd (hd q) \<noteq> cu CHR ''/''" by (cases "hd q") auto
  with hd jne have nabs: "\<not> posix_isAbsolute (joinWith (str ''/'') q)"
    by (simp add: not_absolute_iff)
  have "last (last q) \<in> set (last q)" using lq by simp
  with lns have "last (last q) \<noteq> cu CHR ''/''" by auto
  with joinWith_last [OF False lq] have nts: "last (joinWith (str ''/'') q) \<noteq> cu CHR ''/''"
    by simp
  have na: "normalizeArray q True [] = q"
    unfolding q_def by (rule normalizeArray_relParts [OF rest])
  have "posix_normalize (joinWith (str ''/'') q) = joinWith (str ''/'') q"
    using nabs nts jne by (simp add: posix_normalize_def Let_def sp na)
  with False show ?thesis
    by (simp add: makeUnixStylePath_def posixPath_def posix_join_def Let_def sp jl)
qed

lemma isNormalParts_drop: "isNormalParts t \<Longrightarrow> isNormalParts (drop n t)"
  by (auto simp: isNormalParts_def list_all_iff dest: in_set_dropD)

lemma absPath_absolute: "posix_isAbsolute (absPath r)"
  by (simp add: absPath_def posix_isAbsolute_def str_def)

lemma normalizeArray_joined:
  assumes "isNormalParts r"
  shows "normalizeArray (splitOn (cu CHR ''/'') (joinWith (str ''/'') r)) al res = res @ r"
proof (cases "r = []")
  case True
  then show ?thesis by simp
next
  case False
  have "splitOn (cu CHR ''/'') (joinWith [cu CHR ''/''] r) = r"
    using False normal_no_slash [OF assms] by (rule splitOn_joinWith)
  then show ?thesis by (simp add: slash_str normalizeArray_normal [OF assms])
qed

lemma updateSourceMapPath_posix:
  assumes "posix_isAbsolute cwd"
  shows "updateSourceMapPath (posixPath cwd) x root =
     renderParts (relativeParts (resolvedParts cwd root) (resolvedParts cwd x))"
proof -
  have rel: "path_relative (posixPath cwd) root x =
      joinWith (str ''/'') (relativeParts (resolvedParts cwd root) (resolvedParts cwd x))"
    by (simp add: posixPath_def posix_relative_abs [OF assms] relativeParts_def)
  have "isNormalParts (drop (samePartsLength (resolvedParts cwd root) (resolvedParts cwd x))
      (resolvedParts cwd x))"
    by (rule isNormalParts_drop [OF resolvedParts_normal])
  from makeUnixStylePath_relParts [OF this] show ?thesis
    by (simp add: updateSourceMapPath_def rel Let_def relativeParts_def renderParts_def)
qed

lemma renderParts_relative:
  assumes T: "isNormalParts T"
  shows "renderParts (relativeParts F T) \<noteq> [] \<and> \<not> posix_isAbsolute (renderParts (relativeParts F T))"
proof (cases "relativeParts F T = []")
  case True
  then show ?thesis by (simp add: renderParts_def dots_props)
next
  case False
  let ?q = "relativeParts F T"
  have ne: "list_all (\<lambda>p. p \<noteq> []) ?q" and ns: "list_all (\<lambda>p. cu CHR ''/'' \<notin> set p) ?q"
    unfolding relativeParts_def using relParts_props [OF isNormalParts_drop [OF T]] by simp_all
  have hq: "hd ?q \<noteq> []" using ne False by (auto simp: list_all_iff)
  have hns: "cu CHR ''/'' \<notin> set (hd ?q)" using ns False by (auto simp: list_all_iff)
  from joinWith_hd [OF False hq] have jne: "joinWith (str ''/'') ?q \<noteq> []"
    and hd: "hd (joinWith (str ''/'') ?q) = hd (hd ?q)" by simp_all
  from hns hq have "hd (hd ?q) \<noteq> cu CHR ''/''" by (cases "hd ?q") auto
  with hd jne have "\<not> posix_isAbsolute (joinWith (str ''/'') ?q)"
    by (simp add: not_absolute_iff)
  with jne False show ?thesis by (simp add: renderParts_def)
qed

lemma normalizeArray_rendered:
  assumes r: "isNormalParts r" and T: "isNormalParts T"
  shows "normalizeArray (splitOn (cu CHR ''/'') (renderParts (relativeParts r T))) False r = T"
proof -
  let ?n = "samePartsLength r T"
  have le: "?n \<le> length r" "?n \<le> length T" using samePartsLength_le [of r T] by simp_all
  have tk: "take ?n r = take ?n T" by (rule samePartsLength_take)
  show ?thesis
  proof (cases "relativeParts r T = []")
    case True
    then have "length r - ?n = 0" and "drop ?n T = []" by (simp_all add: relativeParts_def)
    with le have "?n = length r" "?n = length T" by simp_all
    with tk have "r = T" by simp
    with True show ?thesis
      by (simp add: renderParts_def str_def)
  next
    case False
    let ?q = "relativeParts r T"
    have ns: "list_all (\<lambda>p. cu CHR ''/'' \<notin> set p) ?q"
      unfolding relativeParts_def using relParts_props [OF isNormalParts_drop [OF T]] by simp
    have sp: "splitOn (cu CHR ''/'') (joinWith (str ''/'') ?q) = ?q"
      using splitOn_joinWith [OF False ns] by (simp add: slash_str)
    have "normalizeArray ?q False r =
        normalizeArray (drop ?n T) False (normalizeArray (replicate (length r - ?n) (str ''..'')) False r)"
      by (simp add: relativeParts_def normalizeArray_append)
    also have "normalizeArray (replicate (length r - ?n) (str ''..'')) False r =
        take (length r - (length r - ?n)) r"
      by (rule normalizeArray_ups_pop [OF r]) simp
    also have "length r - (length r - ?n) = ?n" using le by simp
    also have "normalizeArray (drop ?n T) False (take ?n r) = take ?n r @ drop ?n T"
      by (rule normalizeArray_normal [OF isNormalParts_drop [OF T]])
    also have "\<dots> = T" by (simp add: tk)
    finally show ?thesis using False by (simp add: renderParts_def sp)
  qed
qed

lemma resolvedParts_rendered:
  assumes r: "isNormalParts r" and T: "isNormalParts T"
  shows "resolvedParts (absPath r) (renderParts (relativeParts r T)) = T"
proof -
  let ?s = "renderParts (relativeParts r T)"
  from renderParts_relative [OF T, of r] have sne: "?s \<noteq> []" and nabs: "\<not> posix_isAbsolute ?s"
    by simp_all
  have e: "absPath r @ str ''/'' @ ?s @ str ''/'' =
      [] @ cu CHR ''/'' # (joinWith (str ''/'') r @ cu CHR ''/'' # (?s @ [cu CHR ''/'']))"
    by (simp add: absPath_def slash_str)
  have sp: "splitOn (cu CHR ''/'') (absPath r @ str ''/'' @ ?s @ str ''/'') =
      [[]] @ splitOn (cu CHR ''/'') (joinWith (str ''/'') r) @ splitOn (cu CHR ''/'') ?s @ [[]]"
  proof -
    have 1: "splitOn (cu CHR ''/'') ([] @ cu CHR ''/'' # (joinWith (str ''/'') r @ cu CHR ''/'' # (?s @ [cu CHR ''/'']))) =
        splitOn (cu CHR ''/'') [] @ splitOn (cu CHR ''/'') (joinWith (str ''/'') r @ cu CHR ''/'' # (?s @ [cu CHR ''/'']))"
      by (rule splitOn_append)
    have 2: "splitOn (cu CHR ''/'') (joinWith (str ''/'') r @ cu CHR ''/'' # (?s @ [cu CHR ''/''])) =
        splitOn (cu CHR ''/'') (joinWith (str ''/'') r) @ splitOn (cu CHR ''/'') (?s @ [cu CHR ''/''])"
      by (rule splitOn_append)
    have 3: "splitOn (cu CHR ''/'') (?s @ [cu CHR ''/'']) = splitOn (cu CHR ''/'') ?s @ [[]]"
      by (rule splitOn_snoc_sep)
    have 4: "splitOn (cu CHR ''/'') [] = [[]]" by simp
    show ?thesis by (simp only: e 1 2 3 4)
  qed
  have "resolvedParts (absPath r) ?s =
      normalizeArray (splitOn (cu CHR ''/'') (absPath r @ str ''/'' @ ?s @ str ''/'')) False []"
    using sne nabs by (simp only: resolvedParts_def if_False)
  also have "\<dots> = normalizeArray ([[]] @ splitOn (cu CHR ''/'') (joinWith (str ''/'') r) @
         splitOn (cu CHR ''/'') ?s @ [[]]) False []"
    by (simp only: sp)
  also have "\<dots> = normalizeArray (splitOn (cu CHR ''/'') ?s) False r"
    by (simp add: normalizeArray_append normalizeArray_joined [OF r])
  also have "\<dots> = T" by (rule normalizeArray_rendered [OF r T])
  finally show ?thesis .
qed

lemma resolvedParts_of_cwd:
  assumes r: "isNormalParts r" and "posix_resolve (absPath r) [root] = absPath r"
  shows "resolvedParts (absPath r) root = r"
proof -
  from assms(2) have "absPath (resolvedParts (absPath r) root) = absPath r"
    by (simp add: posix_resolve_abs [OF absPath_absolute])
  then have "trimArray (splitOn (cu CHR ''/'') (drop (Suc 0) (absPath (resolvedParts (absPath r) root)))) =
      trimArray (splitOn (cu CHR ''/'') (drop (Suc 0) (absPath r)))"
    by simp
  then show ?thesis
    by (simp only: parts_of_absPath [OF r] parts_of_absPath [OF resolvedParts_normal])
qed

lemma updateSourceMapPath_idem:
  assumes r: "isNormalParts r" and cwd: "cwd = absPath r"
    and root: "posix_resolve cwd [root] = cwd"
  shows "updateSourceMapPath (posixPath cwd) (updateSourceMapPath (posixPath cwd) x root) root =
         updateSourceMapPath (posixPath cwd) x root"
proof -
  have abs: "posix_isAbsolute cwd" by (simp add: cwd absPath_absolute)
  have F: "resolvedParts cwd root = r"
    using resolvedParts_of_cwd [OF r] root by (simp add: cwd)
  have 1: "updateSourceMapPath (posixPath cwd) x root =
      renderParts (relativeParts r (resolvedParts cwd x))"
    by (simp add: updateSourceMapPath_posix [OF abs] F)
  have 2: "resolvedParts cwd (renderParts (relativeParts r (resolvedParts cwd x))) =
      resolvedParts cwd x"
    unfolding cwd by (rule resolvedParts_rendered [OF r resolvedParts_normal])
  show ?thesis
    unfolding 1 by (simp add: updateSourceMapPath_posix [OF abs] F 2)
qed

section \<open>Evaluating the \<^verbatim>\<open>url\<close> module\<close>

lemma matchValue_nonempty: "matchValue acc r = Some (v, ws) \<Longrightarrow> v \<noteq> []"
  by (induction r arbitrary: acc) (auto split: if_splits option.splits)

lemma locator_nonempty: "getSourceMapRelativeUrl body = Some v \<Longrightarrow> v \<noteq> []"
proof -
  assume a: "getSourceMapRelativeUrl body = Some v"
  then obtain M where M: "searchFrom 0 body = Some M" and v: "v = group2 M"
    by (auto simp: getSourceMapRelativeUrl_def SourceMapURLRegex_exec_def split: option.splits)
  from searchFrom_Some [OF M] obtain p rest t where
    b: "body = p @ rest" and t: "matchAt rest = Some t" and MM: "M = mkMatch (0 + length p) t"
    by blast
  obtain m v' ws where tt: "t = (m, v', ws)" by (cases t) auto
  with t have "matchAt rest = Some (m, v', ws)" by simp
  then obtain r where "matchValue [] r = Some (v', ws)" unfolding matchAt_Some by blast
  then have "v' \<noteq> []" by (rule matchValue_nonempty)
  with v MM tt show ?thesis by (simp add: mkMatch_def)
qed

lemmas url_defs = Url_parse_def trimStep_def simplePathStep_def protocolStep_def slashesStep_def
  hostStep_def hasSlashes_def isHostless_def afterHost_def splitHash_def splitQuery_def buildUrl_def
  withHref_def finalPathname_def escapeAuto_def parseHostSection_def hostStage_def finishHost_def
  buildHost_def idnaHostname_def lowerHostname_def validateHostname_def isIpv6Hostname_def
  parseHost_def hostEndIndex_def splitAuth_def hostnamePartStart_def hostnamePartPattern_def
  portPattern_def authorityPattern_def protocolPattern_def simplePathPattern_def simplePathChar_def
  convertBackslashes_def Url_format_def escapePathname_def orEmpty_def truthy_def emptyUrl_def
  slashedProtocol_def unsafeProtocol_def hostlessProtocol_def hostEndingChars_def nonHostChars_def
  autoEscape_def hostnamePartChar_def protocolChar_def isAsciiLetter_def isDigit_def asciiLower_def
  jsTrim_def firstOfAny_def lastIndexOf_def percentOctet_def hexDigit_def hexValue_def
  isWhiteSpace_def isLineTerminator_def str_def cu_def

lemma getSourceMapURL_steps:
  assumes "getSourceMapRelativeUrl scriptBody = Some reference"
    and "url_parse U reference = Inr parsed"
    and "url_format U (parsed\<lparr>protocol := protocol scriptUrl, host := host scriptUrl\<rparr>) = Inr formatted"
    and "url_parse U formatted = Inr result"
  shows "getSourceMapURL U scriptUrl scriptBody = Inr (Some result)"
  using assms locator_nonempty [OF assms(1)]
  by (simp add: getSourceMapURL_def)

lemma getSourceMapURL_throws:
  assumes "getSourceMapRelativeUrl scriptBody = Some reference"
    and "url_parse U reference = Inl e"
  shows "getSourceMapURL U scriptUrl scriptBody = Inl e"
  using assms locator_nonempty [OF assms(1)]
  by (simp add: getSourceMapURL_def)

lemma parse_relativeReference:
  "Url_parse asciiOnlyLib (str ''index.ios.map'') = Inr relativeReference"
  by (simp add: url_defs relativeReference_def)

lemma format_relativeReference:
  "Url_format (relativeReference\<lparr>protocol := protocol exampleScriptUrl, host := host exampleScriptUrl\<rparr>) =
     Inr (str ''http://localhost:8081/index.ios.map'')"
  by (simp add: url_defs relativeReference_def exampleScriptUrl_def)

lemma parse_relativeResult:
  "Url_parse asciiOnlyLib (str ''http://localhost:8081/index.ios.map'') = Inr relativeResult"
  by (simp add: url_defs relativeResult_def)

lemma parse_malformed_auth:
  "Url_parse asciiOnlyLib (str ''http://%@h/x'') = Inl URIError"
  by (simp add: url_defs)

section \<open>Properties of the \<^verbatim>\<open>url\<close> module\<close>

subsection \<open>Searching and escaping strings\<close>

lemma indexOf_None: "x \<notin> set s \<Longrightarrow> indexOf x s = None"
  by (induction s) auto

lemma indexOf_append: "x \<notin> set a \<Longrightarrow> indexOf x (a @ x # t) = Some (length a)"
  by (induction a) auto

lemma lastIndexOf_None: "x \<notin> set s \<Longrightarrow> lastIndexOf x s = None"
  by (simp add: lastIndexOf_def indexOf_None)

lemma lastIndexOf_append: "x \<notin> set t \<Longrightarrow> lastIndexOf x (a @ x # t) = Some (length a)"
  using indexOf_append [of x "rev t" "rev a"] by (simp add: lastIndexOf_def)

lemma firstOfAny_None: "list_all (\<lambda>c. c \<notin> set xs) s \<Longrightarrow> firstOfAny xs s = None"
  by (simp add: firstOfAny_def list_all_iff list_ex_iff)

lemma firstOfAny_append:
  "list_all (\<lambda>c. c \<notin> set xs) a \<Longrightarrow> c \<in> set xs \<Longrightarrow> firstOfAny xs (a @ c # t) = Some (length a)"
  by (simp add: firstOfAny_def list_all_iff list_ex_iff takeWhile_append2)

lemma jsTrim_id:
  "s \<noteq> [] \<Longrightarrow> \<not> isWhiteSpace (hd s) \<Longrightarrow> \<not> isWhiteSpace (last s) \<Longrightarrow> jsTrim s = s"
proof -
  assume a: "s \<noteq> []" "\<not> isWhiteSpace (hd s)" "\<not> isWhiteSpace (last s)"
  from a(1,2) have 1: "dropWhile isWhiteSpace s = s" by (cases s) auto
  from a(1,3) have 2: "dropWhile isWhiteSpace (rev s) = rev s"
    by (cases "rev s") (auto simp: last_rev [symmetric] simp del: last_rev)
  show ?thesis by (simp add: jsTrim_def 1 2)
qed

lemma convertBackslashes_id: "0x5C \<notin> set url \<Longrightarrow> convertBackslashes url = url"
proof -
  assume a: "0x5C \<notin> set url"
  have "\<And>n. map (\<lambda>c. if c = 0x5C then cu CHR ''/'' else c) (take n url) = take n url"
    using a by (intro map_idI) (auto dest: in_set_takeD)
  then show ?thesis by (simp add: convertBackslashes_def Let_def)
qed

lemma escapeAuto_id: "list_all (\<lambda>c. c \<notin> set autoEscape) r \<Longrightarrow> escapeAuto r = r"
  unfolding escapeAuto_def by (induction r) auto

lemma escapePathname_id:
  "cu CHR ''?'' \<notin> set p \<Longrightarrow> cu CHR ''#'' \<notin> set p \<Longrightarrow> escapePathname p = p"
  unfolding escapePathname_def by (induction p) auto

lemma escapeFirstHash_id: "cu CHR ''#'' \<notin> set s \<Longrightarrow> escapeFirstHash s = s"
  by (induction s) auto

subsection \<open>The code units of a plain host\<close>

lemma plainHostChar_facts:
  assumes "plainHostChar c \<or> c = cu CHR ''.''"
  shows "c \<notin> set nonHostChars \<and> c \<notin> set hostEndingChars \<and> c \<noteq> cu CHR ''@'' \<and> c \<noteq> cu CHR '':'' \<and>
    c \<noteq> 0x5C \<and> c \<noteq> cu CHR ''#'' \<and> \<not> isWhiteSpace c \<and> c \<le> 127 \<and> asciiLower c = c \<and>
    c \<noteq> cu CHR ''['' \<and> c \<noteq> cu CHR ''/'' \<and> c \<noteq> cu CHR ''?''"
proof -
  have "list_all (\<lambda>c. c \<notin> set nonHostChars \<and> c \<notin> set hostEndingChars \<and> c \<noteq> cu CHR ''@'' \<and>
      c \<noteq> cu CHR '':'' \<and> c \<noteq> 0x5C \<and> c \<noteq> cu CHR ''#'' \<and> \<not> isWhiteSpace c \<and> c \<le> 127 \<and>
      asciiLower c = c \<and> c \<noteq> cu CHR ''['' \<and> c \<noteq> cu CHR ''/'' \<and> c \<noteq> cu CHR ''?'')
    (str ''abcdefghijklmnopqrstuvwxyz0123456789+_-.'')"
    by code_simp
  moreover from assms have "c \<in> set (str ''abcdefghijklmnopqrstuvwxyz0123456789+_-.'')"
    by (auto simp: plainHostChar_def str_def)
  ultimately show ?thesis unfolding list_all_iff by blast
qed

lemma plainHostChar_part: "plainHostChar c \<Longrightarrow> hostnamePartChar c"
proof -
  assume a: "plainHostChar c"
  have "list_all hostnamePartChar (str ''abcdefghijklmnopqrstuvwxyz0123456789+_-'')"
    by code_simp
  with a show ?thesis unfolding list_all_iff plainHostChar_def by blast
qed

lemma isDigit_facts:
  assumes "isDigit c"
  shows "c \<notin> set nonHostChars \<and> c \<notin> set hostEndingChars \<and> c \<noteq> cu CHR ''@'' \<and> c \<noteq> cu CHR '':'' \<and>
    c \<noteq> 0x5C \<and> c \<noteq> cu CHR ''#'' \<and> \<not> isWhiteSpace c \<and> c \<noteq> cu CHR ''/'' \<and> c \<noteq> cu CHR ''?''"
proof -
  have "list_all (\<lambda>c. c \<notin> set nonHostChars \<and> c \<notin> set hostEndingChars \<and> c \<noteq> cu CHR ''@'' \<and>
      c \<noteq> cu CHR '':'' \<and> c \<noteq> 0x5C \<and> c \<noteq> cu CHR ''#'' \<and> \<not> isWhiteSpace c \<and>
      c \<noteq> cu CHR ''/'' \<and> c \<noteq> cu CHR ''?'') (str ''0123456789'')"
    by code_simp
  moreover have "c \<in> set (str ''0123456789'')"
  proof -
    from assms have "48 \<le> unat c" "unat c \<le> 57"
      by (simp_all add: isDigit_def word_le_nat_alt)
    then have "unat c \<in> {48, 49, 50, 51, 52, 53, 54, 55, 56, 57}" by simp arith
    moreover have "c = of_nat (unat c)" by simp
    ultimately have "c \<in> of_nat ` {48, 49, 50, 51, 52, 53, 54, 55, 56, 57}"
      by (rule_tac x = "unat c" in image_eqI)
    then show ?thesis by (simp add: str_def cu_def)
  qed
  ultimately show ?thesis unfolding list_all_iff by blast
qed

subsection \<open>The host section of a plain host\<close>

lemma splitOn_subset: "p \<in> set (splitOn sep s) \<Longrightarrow> set p \<subseteq> set s"
proof (induction s arbitrary: p)
  case Nil
  then show ?case by simp
next
  case (Cons c cs)
  obtain q qs where q: "splitOn sep cs = q # qs"
    using splitOn_nonempty [of sep cs] by (cases "splitOn sep cs") auto
  show ?case
  proof (cases "c = sep")
    case True
    with Cons show ?thesis by auto
  next
    case False
    with Cons.prems q have "p = c # q \<or> p \<in> set qs" by auto
    moreover have "set q \<subseteq> set cs" by (rule Cons.IH) (simp add: q)
    moreover have "p \<in> set qs \<Longrightarrow> set p \<subseteq> set cs" by (rule Cons.IH) (simp add: q)
    ultimately show ?thesis by auto
  qed
qed

lemma validateHostParts_None:
  "list_all (\<lambda>part. hostnamePartPattern part) parts \<Longrightarrow> validateHostParts seen parts = None"
  by (induction parts arbitrary: seen) auto

lemma plainHostname_validate:
  assumes "plainHostname h"
  shows "validateHostname h rest = (h, rest)"
proof -
  have ch: "\<forall>c \<in> set h. plainHostChar c \<or> c = cu CHR ''.''"
    and ln: "\<forall>part \<in> set (splitOn (cu CHR ''.'') h). length part \<le> 63"
    and ne: "h \<noteq> []"
    using assms by (auto simp: plainHostname_def list_all_iff)
  have "list_all (\<lambda>part. hostnamePartPattern part) (splitOn (cu CHR ''.'') h)"
    unfolding list_all_iff
  proof
    fix part assume p: "part \<in> set (splitOn (cu CHR ''.'') h)"
    have "\<forall>c \<in> set part. hostnamePartChar c"
    proof
      fix c assume c: "c \<in> set part"
      with splitOn_subset [OF p] have "c \<in> set h" by blast
      moreover from splitOn_parts [OF p] c have "c \<noteq> cu CHR ''.''" by blast
      ultimately show "hostnamePartChar c" using ch plainHostChar_part by blast
    qed
    with ln p show "hostnamePartPattern part" by (simp add: hostnamePartPattern_def list_all_iff)
  qed
  then have v: "validateHostParts [] (splitOn (cu CHR ''.'') h) = None"
    by (rule validateHostParts_None)
  from ne ch have "hd h \<noteq> cu CHR ''[''" using plainHostChar_facts [of "hd h"] by (cases h) auto
  then have "\<not> isIpv6Hostname h" by (simp add: isIpv6Hostname_def)
  with v show ?thesis by (simp add: validateHostname_def)
qed

lemma plainHostname_lower:
  assumes "plainHostname h"
  shows "lowerHostname L h = h" "idnaHostname L b h = h" "\<not> isIpv6Hostname h"
proof -
  have ch: "\<forall>c \<in> set h. plainHostChar c \<or> c = cu CHR ''.''" and ln: "length h \<le> 255"
    and ne: "h \<noteq> []"
    using assms by (auto simp: plainHostname_def list_all_iff)
  have a: "list_all (\<lambda>c. c \<le> 127) h" unfolding list_all_iff using ch plainHostChar_facts by blast
  have "map asciiLower h = h" by (rule map_idI) (use ch plainHostChar_facts in blast)
  with a ln show "lowerHostname L h = h" by (simp add: lowerHostname_def)
  from a show "idnaHostname L b h = h" by (simp add: idnaHostname_def)
  from ne ch have "hd h \<noteq> cu CHR ''[''" using plainHostChar_facts [of "hd h"] by (cases h) auto
  then show "\<not> isIpv6Hostname h" by (simp add: isIpv6Hostname_def)
qed

lemma plainHost_chars:
  assumes "plainHost h p hst"
  shows "\<forall>c \<in> set hst. c \<notin> set nonHostChars \<and> c \<notin> set hostEndingChars \<and> c \<noteq> cu CHR ''@'' \<and>
           c \<noteq> 0x5C \<and> c \<noteq> cu CHR ''#'' \<and> \<not> isWhiteSpace c \<and> c \<noteq> cu CHR ''/'' \<and> c \<noteq> cu CHR ''?''"
    and "hst \<noteq> []"
proof -
  have ch: "\<forall>c \<in> set h. plainHostChar c \<or> c = cu CHR ''.''" and ne: "h \<noteq> []"
    using assms by (auto simp: plainHost_def plainHostname_def list_all_iff)
  have colon: "cu CHR '':'' \<notin> set nonHostChars \<and> cu CHR '':'' \<notin> set hostEndingChars \<and>
      cu CHR '':'' \<noteq> cu CHR ''@'' \<and> cu CHR '':'' \<noteq> (0x5C :: jschar) \<and> cu CHR '':'' \<noteq> cu CHR ''#'' \<and>
      \<not> isWhiteSpace (cu CHR '':'') \<and> cu CHR '':'' \<noteq> cu CHR ''/'' \<and> cu CHR '':'' \<noteq> cu CHR ''?''"
    by code_simp
  show "hst \<noteq> []" using assms ne by (auto simp: plainHost_def split: option.splits)
  show "\<forall>c \<in> set hst. c \<notin> set nonHostChars \<and> c \<notin> set hostEndingChars \<and> c \<noteq> cu CHR ''@'' \<and>
           c \<noteq> 0x5C \<and> c \<noteq> cu CHR ''#'' \<and> \<not> isWhiteSpace c \<and> c \<noteq> cu CHR ''/'' \<and> c \<noteq> cu CHR ''?''"
  proof
    fix c assume c: "c \<in> set hst"
    from assms c consider "c \<in> set h" | "c = cu CHR '':''" | "isDigit c"
      by (auto simp: plainHost_def list_all_iff str_def split: option.splits)
    then show "c \<notin> set nonHostChars \<and> c \<notin> set hostEndingChars \<and> c \<noteq> cu CHR ''@'' \<and>
           c \<noteq> 0x5C \<and> c \<noteq> cu CHR ''#'' \<and> \<not> isWhiteSpace c \<and> c \<noteq> cu CHR ''/'' \<and> c \<noteq> cu CHR ''?''"
    proof cases
      case 1
      with ch plainHostChar_facts [of c] show ?thesis by blast
    next
      case 2
      show ?thesis unfolding 2 by (rule colon)
    next
      case 3
      with isDigit_facts [of c] show ?thesis by blast
    qed
  qed
qed

lemma plainHost_parseHost:
  assumes "plainHost h p hst"
  shows "parseHost hst = (p, h)"
proof (cases p)
  case None
  with assms have e: "hst = h" and ch: "\<forall>c \<in> set h. plainHostChar c \<or> c = cu CHR ''.''"
    by (auto simp: plainHost_def plainHostname_def list_all_iff)
  have "cu CHR '':'' \<notin> set h" using ch plainHostChar_facts [of "cu CHR '':''"] by blast
  then have "lastIndexOf (cu CHR '':'') h = None" by (rule lastIndexOf_None)
  with e None show ?thesis by (simp add: parseHost_def portPattern_def)
next
  case (Some d)
  with assms have e: "hst = h @ cu CHR '':'' # d" and d: "d \<noteq> []" "list_all isDigit d"
    by (auto simp: plainHost_def str_def)
  have "cu CHR '':'' \<notin> set d" using d(2) isDigit_facts [of "cu CHR '':''"]
    unfolding list_all_iff by blast
  then have l: "lastIndexOf (cu CHR '':'') hst = Some (length h)"
    unfolding e by (rule lastIndexOf_append)
  have pp: "portPattern hst = Some (cu CHR '':'' # d)"
    by (simp add: portPattern_def l) (simp add: e d)
  show ?thesis using d(1) by (simp add: parseHost_def pp Some str_def) (simp add: e)
qed

lemma plainHost_section:
  assumes "plainHost h p hst" and "c = cu CHR ''/''"
  shows "parseHostSection L (hst @ c # t) =
    Inr \<lparr>hp_auth = None, hp_host = hst, hp_port = p, hp_hostname = h, hp_rest = c # t\<rparr>"
proof -
  note ch = plainHost_chars [OF assms(1)]
  have ph: "plainHostname h" using assms(1) by (simp add: plainHost_def)
  have c1: "c \<in> set hostEndingChars" "c \<in> set nonHostChars" "c \<noteq> cu CHR ''@''"
    unfolding assms(2) by code_simp+
  have f1: "firstOfAny hostEndingChars (hst @ c # t) = Some (length hst)"
    by (rule firstOfAny_append) (use ch(1) c1 in \<open>auto simp: list_all_iff\<close>)
  have f2: "firstOfAny nonHostChars (hst @ c # t) = Some (length hst)"
    by (rule firstOfAny_append) (use ch(1) c1 in \<open>auto simp: list_all_iff\<close>)
  have "cu CHR ''@'' \<notin> set (hst @ [c])" using ch(1) c1 by auto
  then have l: "lastIndexOf (cu CHR ''@'') (hst @ [c]) = None" by (rule lastIndexOf_None)
  have sa: "splitAuth (hst @ c # t) = Inr (None, hst @ c # t)"
    by (simp add: splitAuth_def f1 l)
  have he: "hostEndIndex (hst @ c # t) = length hst"
    by (simp add: hostEndIndex_def f2)
  have tr: "truthy p \<Longrightarrow> hst = h @ str '':'' @ orEmpty p" "\<not> truthy p \<Longrightarrow> hst = h"
    using assms(1) by (auto simp: plainHost_def truthy_def orEmpty_def split: option.splits)
  have hs: "hostStage L None hst (c # t) =
      \<lparr>hp_auth = None, hp_host = hst, hp_port = p, hp_hostname = h, hp_rest = c # t\<rparr>"
    using tr
    by (simp add: hostStage_def plainHost_parseHost [OF assms(1)] plainHostname_validate [OF ph]
        finishHost_def plainHostname_lower [OF ph] buildHost_def)
  show ?thesis by (simp add: parseHostSection_def sa he hs)
qed

subsection \<open>Parsing and rendering an absolute path reference\<close>

lemma reference_chars:
  assumes "absolutePathReference pth s"
  shows "pth \<noteq> []" "hd pth = cu CHR ''/''"
    "\<forall>c \<in> set (pth @ s). c \<noteq> cu CHR ''#'' \<and> \<not> isWhiteSpace c \<and> c \<notin> set autoEscape \<and> c \<noteq> 0x5C"
    "cu CHR ''?'' \<notin> set pth" "s \<noteq> [] \<Longrightarrow> hd s = cu CHR ''?''"
proof -
  have sl: "cu CHR ''/'' \<noteq> cu CHR ''#'' \<and> \<not> isWhiteSpace (cu CHR ''/'') \<and>
      cu CHR ''/'' \<notin> set autoEscape \<and> cu CHR ''/'' \<noteq> (0x5C :: jschar) \<and> cu CHR ''/'' \<noteq> cu CHR ''?''"
    by code_simp
  have qm: "cu CHR ''?'' \<noteq> cu CHR ''#'' \<and> \<not> isWhiteSpace (cu CHR ''?'') \<and>
      cu CHR ''?'' \<notin> set autoEscape \<and> cu CHR ''?'' \<noteq> (0x5C :: jschar)"
    by code_simp
  have bs: "(0x5C :: jschar) \<in> set autoEscape" by code_simp
  obtain r where p: "pth = cu CHR ''/'' # r" and r: "list_all plainPathChar r"
    using assms by (auto simp: absolutePathReference_def split: list.splits)
  show "pth \<noteq> []" "hd pth = cu CHR ''/''" using p by simp_all
  show "cu CHR ''?'' \<notin> set pth" using p r sl by (auto simp: list_all_iff plainPathChar_def)
  show "s \<noteq> [] \<Longrightarrow> hd s = cu CHR ''?''"
    using assms by (auto simp: absolutePathReference_def split: list.splits)
  have q: "s = [] \<or> (\<exists>t. s = cu CHR ''?'' # t \<and> list_all plainQueryChar t)"
    using assms by (auto simp: absolutePathReference_def split: list.splits)
  show "\<forall>c \<in> set (pth @ s). c \<noteq> cu CHR ''#'' \<and> \<not> isWhiteSpace c \<and> c \<notin> set autoEscape \<and> c \<noteq> 0x5C"
  proof
    fix c assume "c \<in> set (pth @ s)"
    with p q consider "c = cu CHR ''/''" | "c \<in> set r" | "c = cu CHR ''?''"
      | t where "s = cu CHR ''?'' # t" "list_all plainQueryChar t" "c \<in> set t"
      by auto
    then show "c \<noteq> cu CHR ''#'' \<and> \<not> isWhiteSpace c \<and> c \<notin> set autoEscape \<and> c \<noteq> 0x5C"
    proof cases
      case 1
      show ?thesis unfolding 1 using sl by blast
    next
      case 2
      with r bs show ?thesis by (auto simp: list_all_iff plainPathChar_def)
    next
      case 3
      show ?thesis unfolding 3 using qm by blast
    next
      case 4
      with bs show ?thesis by (auto simp: list_all_iff plainQueryChar_def)
    qed
  qed
qed

lemma last_not_space:
  "s \<noteq> [] \<Longrightarrow> \<forall>c \<in> set s. \<not> isWhiteSpace c \<Longrightarrow> \<not> isWhiteSpace (last s)"
  by simp

lemma simplePathPattern_one:
  assumes "x = [] \<or> hd x \<noteq> cu CHR ''/''"
    and "takeWhile simplePathChar x = r" and "dropWhile simplePathChar x = s"
    and "s = [] \<or> (hd s = cu CHR ''?'' \<and> \<not> list_ex isWhiteSpace (tl s))"
  shows "simplePathPattern (cu CHR ''/'' # x) =
    Some (cu CHR ''/'' # r, if s = [] then None else Some s)"
proof -
  have k: "(case x of [] \<Rightarrow> 1 | d # r2 \<Rightarrow> if d = cu CHR ''/'' then 2 else (1::nat)) = 1"
    using assms(1) by (cases x) auto
  have "simplePathPattern (cu CHR ''/'' # x) =
    (let body = takeWhile simplePathChar x; t = dropWhile simplePathChar x
     in if t = [] then Some (cu CHR ''/'' # body, None)
        else if hd t = cu CHR ''?'' \<and> \<not> list_ex isWhiteSpace (tl t)
        then Some (cu CHR ''/'' # body, Some t)
        else None)"
    unfolding simplePathPattern_def by (simp add: k Let_def)
  also have "\<dots> = Some (cu CHR ''/'' # r, if s = [] then None else Some s)"
    unfolding assms(2,3) Let_def using assms(4) by auto
  finally show ?thesis .
qed

lemma simplePathPattern_two:
  assumes "x = [] \<or> hd x \<noteq> cu CHR ''/''"
    and "takeWhile simplePathChar x = r" and "dropWhile simplePathChar x = s"
    and "s = [] \<or> (hd s = cu CHR ''?'' \<and> \<not> list_ex isWhiteSpace (tl s))"
  shows "simplePathPattern (cu CHR ''/'' # cu CHR ''/'' # x) =
    Some (cu CHR ''/'' # cu CHR ''/'' # r, if s = [] then None else Some s)"
proof -
  have k: "\<not> (case x of [] \<Rightarrow> False | e # r3 \<Rightarrow> e = cu CHR ''/'')"
    using assms(1) by (cases x) auto
  have "simplePathPattern (cu CHR ''/'' # cu CHR ''/'' # x) =
    (let body = takeWhile simplePathChar x; t = dropWhile simplePathChar x
     in if t = [] then Some (cu CHR ''/'' # cu CHR ''/'' # body, None)
        else if hd t = cu CHR ''?'' \<and> \<not> list_ex isWhiteSpace (tl t)
        then Some (cu CHR ''/'' # cu CHR ''/'' # body, Some t)
        else None)"
    unfolding simplePathPattern_def using k by (simp add: Let_def)
  also have "\<dots> = Some (cu CHR ''/'' # cu CHR ''/'' # r, if s = [] then None else Some s)"
    unfolding assms(2,3) Let_def using assms(4) by auto
  finally show ?thesis .
qed

lemma simplePathPattern_three:
  "simplePathPattern (cu CHR ''/'' # cu CHR ''/'' # cu CHR ''/'' # x) = None"
  by (simp add: simplePathPattern_def)

text \<open>
  A path that begins with three slashes is not matched by \<^verbatim>\<open>simplePathPattern\<close>; the steps
  after it find no protocol and no host, and give the same object.
\<close>

lemma reference_slow_path:
  assumes "absolutePathReference pth s" and "pth = cu CHR ''/'' # cu CHR ''/'' # cu CHR ''/'' # y"
  shows "protocolStep L (pth @ s) =
    Inr (emptyUrl\<lparr>path := Some (pth @ s), href := Some (pth @ s), pathname := Some pth,
           search := (if s = [] then None else Some s),
           query := (if s = [] then None else Some (drop 1 s))\<rparr>)"
proof -
  note ch = reference_chars [OF assms(1)]
  have sl: "\<not> protocolChar (cu CHR ''/'')" "cu CHR ''/'' \<noteq> cu CHR ''@''" by code_simp+
  have pp: "protocolPattern (pth @ s) = None"
    unfolding assms(2) using sl by (simp add: protocolPattern_def)
  have ap: "\<not> authorityPattern (pth @ s)"
    unfolding assms(2) by (simp add: authorityPattern_def str_def)
  have s1: "protocolStep L (pth @ s) = afterHost None False None (pth @ s)"
    using ap by (simp add: protocolStep_def pp slashesStep_def hasSlashes_def isHostless_def
        hostStep_def)
  have ea: "escapeAuto (pth @ s) = pth @ s"
    by (rule escapeAuto_id) (use ch(3) in \<open>simp add: list_all_iff\<close>)
  have ih: "indexOf (cu CHR ''#'') (pth @ s) = None"
    by (rule indexOf_None) (use ch(3) in blast)
  have s2: "afterHost None False None (pth @ s) = splitQuery None False None None (pth @ s)"
    by (simp add: afterHost_def ea splitHash_def ih)
  have fp: "\<And>lp hp. finalPathname lp hp pth = Some pth"
    using ch(1) by (simp add: finalPathname_def)
  have ep: "escapePathname pth = pth"
    by (rule escapePathname_id) (use ch in auto)
  have es: "escapeFirstHash s = s"
    by (rule escapeFirstHash_id) (use ch(3) in auto)
  have fm: "Url_format
      \<lparr>protocol = None, slashes = None, auth = None, host = None, port = None,
       hostname = None, hash = None, search = (if s = [] then None else Some s),
       query = q, pathname = Some pth, path = x, href = None\<rparr> = Inr (pth @ s)" for q x
    using ch(1,2,5) by (simp add: Url_format_def truthy_def orEmpty_def Let_def ep es)
  have s3: "splitQuery None False None None (pth @ s) =
    Inr (emptyUrl\<lparr>path := Some (pth @ s), href := Some (pth @ s), pathname := Some pth,
           search := (if s = [] then None else Some s),
           query := (if s = [] then None else Some (drop 1 s))\<rparr>)"
  proof (cases "s = []")
    case True
    have iq: "indexOf (cu CHR ''?'') pth = None" by (rule indexOf_None) (rule ch(4))
    show ?thesis
      using ch(1) fm [of None "Some pth"]
      by (simp add: True splitQuery_def iq buildUrl_def fp withHref_def emptyUrl_def
          truthy_def orEmpty_def)
  next
    case False
    then obtain q where se: "s = cu CHR ''?'' # q" using ch(5) by (cases s) auto
    have iq: "indexOf (cu CHR ''?'') (pth @ s) = Some (length pth)"
      unfolding se by (rule indexOf_append) (rule ch(4))
    show ?thesis
      using ch(1) False fm [of "Some (drop 1 s)" "Some (pth @ s)"]
      by (simp add: splitQuery_def iq buildUrl_def fp withHref_def emptyUrl_def
          truthy_def orEmpty_def)
  qed
  show ?thesis by (simp only: s1 s2 s3)
qed

lemma parse_reference:
  assumes "absolutePathReference pth s"
  shows "Url_parse L (pth @ s) =
    Inr (emptyUrl\<lparr>path := Some (pth @ s), href := Some (pth @ s), pathname := Some pth,
           search := (if s = [] then None else Some s),
           query := (if s = [] then None else Some (drop 1 s))\<rparr>)"
proof -
  note ch = reference_chars [OF assms]
  have cb: "convertBackslashes (pth @ s) = pth @ s"
    by (rule convertBackslashes_id) (use ch(3) in blast)
  have ne: "pth @ s \<noteq> []" using ch(1) by simp
  have hd: "\<not> isWhiteSpace (hd (pth @ s))" using ch(1,3) by (cases pth) auto
  have tr: "jsTrim (pth @ s) = pth @ s"
    by (rule jsTrim_id [OF ne hd]) (rule last_not_space [OF ne], use ch(3) in blast)
  have nh: "cu CHR ''#'' \<notin> set (pth @ s)" using ch(3) by blast
  have st: "Url_parse L (pth @ s) = simplePathStep L True (pth @ s)"
    unfolding Url_parse_def cb trimStep_def tr using nh by simp
  have sl: "cu CHR ''/'' \<noteq> cu CHR ''?''" by code_simp
  obtain r where p: "pth = cu CHR ''/'' # r" and r: "list_all plainPathChar r"
    using assms by (auto simp: absolutePathReference_def split: list.splits)
  have q: "s = [] \<or> (\<exists>t. s = cu CHR ''?'' # t \<and> list_all plainQueryChar t)"
    using assms by (auto simp: absolutePathReference_def split: list.splits)
  have ws: "s = [] \<or> (hd s = cu CHR ''?'' \<and> \<not> list_ex isWhiteSpace (tl s))"
    using q by (auto simp: list_all_iff list_ex_iff plainQueryChar_def)
  have tw: "takeWhile simplePathChar (z @ s) = z \<and> dropWhile simplePathChar (z @ s) = s"
    if "set z \<subseteq> set r" for z
  proof -
    from that r have "\<forall>c \<in> set z. simplePathChar c"
      by (auto simp: list_all_iff plainPathChar_def simplePathChar_def)
    with q show ?thesis
      by (auto simp: takeWhile_append2 dropWhile_append2 simplePathChar_def)
  qed
  have x0: "z @ s = [] \<or> hd (z @ s) \<noteq> cu CHR ''/''" if "z = [] \<or> hd z \<noteq> cu CHR ''/''" for z
    using that q sl by (cases z) auto
  consider (one) "r = [] \<or> hd r \<noteq> cu CHR ''/''"
    | (two) r2 where "r = cu CHR ''/'' # r2" "r2 = [] \<or> hd r2 \<noteq> cu CHR ''/''"
    | (three) y where "r = cu CHR ''/'' # cu CHR ''/'' # y"
  proof (cases r)
    case Nil
    then show ?thesis using one by simp
  next
    case (Cons d r2)
    show ?thesis
    proof (cases "d = cu CHR ''/''")
      case False
      with Cons show ?thesis using one by simp
    next
      case True
      show ?thesis
      proof (cases r2)
        case Nil
        with Cons True show ?thesis using two by simp
      next
        case c2: (Cons d2 y)
        show ?thesis
        proof (cases "d2 = cu CHR ''/''")
          case False
          with Cons True c2 show ?thesis using two by simp
        next
          case t2: True
          with Cons True c2 show ?thesis using three by simp
        qed
      qed
    qed
  qed
  then have "simplePathStep L True (pth @ s) =
    Inr (emptyUrl\<lparr>path := Some (pth @ s), href := Some (pth @ s), pathname := Some pth,
           search := (if s = [] then None else Some s),
           query := (if s = [] then None else Some (drop 1 s))\<rparr>)"
  proof cases
    case one
    from tw [of r] have t: "takeWhile simplePathChar (r @ s) = r"
      "dropWhile simplePathChar (r @ s) = s" by simp_all
    have "simplePathPattern (pth @ s) = Some (pth, if s = [] then None else Some s)"
      using simplePathPattern_one [OF x0 [OF one] t ws] by (simp add: p)
    then show ?thesis by (simp add: simplePathStep_def)
  next
    case two
    from tw [of r2] two(1) have t: "takeWhile simplePathChar (r2 @ s) = r2"
      "dropWhile simplePathChar (r2 @ s) = s" by auto
    have "simplePathPattern (pth @ s) = Some (pth, if s = [] then None else Some s)"
      using simplePathPattern_two [OF x0 [OF two(2)] t ws] by (simp add: p two(1))
    then show ?thesis by (simp add: simplePathStep_def)
  next
    case three
    have pe: "pth = cu CHR ''/'' # cu CHR ''/'' # cu CHR ''/'' # y" by (simp add: p three)
    have "simplePathPattern (pth @ s) = None"
      unfolding pe by (simp add: simplePathPattern_three)
    then show ?thesis
      by (simp add: simplePathStep_def reference_slow_path [OF assms pe])
  qed
  with st show ?thesis by simp
qed

lemma format_reference:
  assumes "absolutePathReference pth s" and "slashedScheme proto" and "hst \<noteq> []"
  shows "Url_format
      ((emptyUrl\<lparr>path := Some (pth @ s), href := Some (pth @ s), pathname := Some pth,
           search := (if s = [] then None else Some s),
           query := (if s = [] then None else Some (drop 1 s))\<rparr>)
        \<lparr>protocol := Some proto, host := Some hst\<rparr>) =
    Inr (proto @ str ''//'' @ hst @ pth @ s)"
proof -
  note ch = reference_chars [OF assms(1)]
  have ep: "escapePathname pth = pth"
    by (rule escapePathname_id) (use ch in auto)
  have es: "escapeFirstHash s = s"
    by (rule escapeFirstHash_id) (use ch(3) in auto)
  have pr: "proto \<noteq> []" "last proto = cu CHR '':''" "slashedProtocol proto"
    using assms(2) by (auto simp: slashedScheme_def slashedProtocol_def str_def)
  show ?thesis
    using ch(1,2,5) pr assms(3)
    by (simp add: Url_format_def emptyUrl_def truthy_def orEmpty_def Let_def ep es)
qed

subsection \<open>Parsing the rendered location\<close>

lemma slashedScheme_facts:
  assumes "slashedScheme proto"
  shows "proto \<noteq> []" "hd proto \<noteq> cu CHR ''/''" "last proto = cu CHR '':''"
    "map asciiLower proto = proto" "slashedProtocol proto" "\<not> unsafeProtocol proto"
    "\<not> hostlessProtocol proto"
    "\<forall>c \<in> set proto. c \<noteq> cu CHR ''#'' \<and> \<not> isWhiteSpace c \<and> c \<noteq> 0x5C"
    "protocolPattern (proto @ cu CHR ''/'' # t) = Some proto"
proof -
  from assms consider "proto = str ''http:''" | "proto = str ''https:''" | "proto = str ''ftp:''"
    | "proto = str ''gopher:''" | "proto = str ''file:''"
    by (auto simp: slashedScheme_def)
  then have "proto \<noteq> [] \<and> hd proto \<noteq> cu CHR ''/'' \<and> last proto = cu CHR '':'' \<and>
    map asciiLower proto = proto \<and> slashedProtocol proto \<and> \<not> unsafeProtocol proto \<and>
    \<not> hostlessProtocol proto \<and>
    list_all (\<lambda>c. c \<noteq> cu CHR ''#'' \<and> \<not> isWhiteSpace c \<and> c \<noteq> 0x5C) proto \<and>
    takeWhile protocolChar (proto @ cu CHR ''/'' # t) @ str '':'' = proto \<and>
    takeWhile protocolChar (proto @ cu CHR ''/'' # t) \<noteq> [] \<and>
    dropWhile protocolChar (proto @ cu CHR ''/'' # t) \<noteq> [] \<and>
    hd (dropWhile protocolChar (proto @ cu CHR ''/'' # t)) = cu CHR '':''"
    by cases
      (simp_all add: slashedProtocol_def unsafeProtocol_def hostlessProtocol_def asciiLower_def
        protocolChar_def isAsciiLetter_def isDigit_def isWhiteSpace_def isLineTerminator_def
        str_def cu_def)
  then show "proto \<noteq> []" "hd proto \<noteq> cu CHR ''/''" "last proto = cu CHR '':''"
    "map asciiLower proto = proto" "slashedProtocol proto" "\<not> unsafeProtocol proto"
    "\<not> hostlessProtocol proto"
    "\<forall>c \<in> set proto. c \<noteq> cu CHR ''#'' \<and> \<not> isWhiteSpace c \<and> c \<noteq> 0x5C"
    "protocolPattern (proto @ cu CHR ''/'' # t) = Some proto"
    by (simp_all add: protocolPattern_def Let_def list_all_iff)
qed

lemma simplePathPattern_None: "s \<noteq> [] \<Longrightarrow> hd s \<noteq> cu CHR ''/'' \<Longrightarrow> simplePathPattern s = None"
  by (cases s) (simp_all add: simplePathPattern_def)

lemma format_resolved:
  assumes "absolutePathReference pth s" and "slashedScheme proto" and "hst \<noteq> []"
  shows "Url_format
      \<lparr>protocol = Some proto, slashes = Some True, auth = None, host = Some hst, port = p,
       hostname = Some h, hash = None, search = (if s = [] then None else Some s),
       query = q, pathname = Some pth, path = x, href = None\<rparr> =
    Inr (proto @ str ''//'' @ hst @ pth @ s)"
proof -
  note ch = reference_chars [OF assms(1)]
  have ep: "escapePathname pth = pth"
    by (rule escapePathname_id) (use ch in auto)
  have es: "escapeFirstHash s = s"
    by (rule escapeFirstHash_id) (use ch(3) in auto)
  note pr = slashedScheme_facts(1,3) [OF assms(2)]
  show ?thesis
    using ch(1,2,5) pr assms(3)
    by (simp add: Url_format_def truthy_def orEmpty_def Let_def ep es)
qed

lemma parse_resolved:
  assumes ref: "absolutePathReference pth s" and sch: "slashedScheme proto"
    and ph: "plainHost h p hst"
  shows "Url_parse L (proto @ str ''//'' @ hst @ pth @ s) = Inr (resolvedUrl proto hst p h pth s)"
proof -
  note rc = reference_chars [OF ref]
  note hc = plainHost_chars [OF ph]
  note sf = slashedScheme_facts [OF sch]
  define F where "F = proto @ str ''//'' @ hst @ pth @ s"
  have sl: "cu CHR ''/'' \<noteq> cu CHR ''#'' \<and> \<not> isWhiteSpace (cu CHR ''/'') \<and> cu CHR ''/'' \<noteq> (0x5C :: jschar)"
    by code_simp
  have all: "\<forall>c \<in> set F. c \<noteq> cu CHR ''#'' \<and> \<not> isWhiteSpace c \<and> c \<noteq> 0x5C"
  proof
    fix c assume "c \<in> set F"
    then consider "c \<in> set proto" | "c = cu CHR ''/''" | "c \<in> set hst" | "c \<in> set (pth @ s)"
      by (auto simp: F_def str_def)
    then show "c \<noteq> cu CHR ''#'' \<and> \<not> isWhiteSpace c \<and> c \<noteq> 0x5C"
    proof cases
      case 1 with sf(8) show ?thesis by blast
    next
      case 2 show ?thesis unfolding 2 by (rule sl)
    next
      case 3 with hc(1) show ?thesis by blast
    next
      case 4 with rc(3) show ?thesis by blast
    qed
  qed
  have ne: "F \<noteq> []" using sf(1) by (simp add: F_def)
  have hdF: "hd F = hd proto" using sf(1) by (simp add: F_def)
  have cb: "convertBackslashes F = F" by (rule convertBackslashes_id) (use all in blast)
  have hw: "\<not> isWhiteSpace (hd F)" using all ne by (cases F) auto
  have tr: "jsTrim F = F"
    by (rule jsTrim_id [OF ne hw]) (rule last_not_space [OF ne], use all in blast)
  have nh: "cu CHR ''#'' \<notin> set F" using all by blast
  have sp: "simplePathPattern F = None"
    by (rule simplePathPattern_None [OF ne]) (simp add: hdF sf(2))
  have Fe: "F = proto @ cu CHR ''/'' # (cu CHR ''/'' # hst @ pth @ s)" by (simp add: F_def str_def)
  have pp: "protocolPattern F = Some proto" unfolding Fe by (rule sf(9))
  have dr: "drop (length proto) F = str ''//'' @ hst @ pth @ s" by (simp add: F_def)
  have s1: "Url_parse L F = slashesStep L (Some proto) (str ''//'' @ hst @ pth @ s)"
    unfolding Url_parse_def cb trimStep_def tr simplePathStep_def
    using nh by (simp add: sp protocolStep_def pp dr)
  have hs: "hasSlashes (Some proto) (str ''//'' @ hst @ pth @ s)"
    by (simp add: hasSlashes_def str_def)
  have hl: "\<not> isHostless (Some proto)" using sf(7) by (simp add: isHostless_def)
  have s2: "slashesStep L (Some proto) (str ''//'' @ hst @ pth @ s) =
      hostStep L (Some proto) True True (hst @ pth @ s)"
    using hs hl by (simp add: slashesStep_def str_def)
  obtain r where pe: "pth = cu CHR ''/'' # r" using rc(1,2) by (cases pth) auto
  have sec: "parseHostSection L (hst @ pth @ s) =
      Inr \<lparr>hp_auth = None, hp_host = hst, hp_port = p, hp_hostname = h, hp_rest = pth @ s\<rparr>"
    using plainHost_section [OF ph refl, of L "r @ s"] by (simp add: pe)
  have s3: "hostStep L (Some proto) True True (hst @ pth @ s) =
      afterHost (Some proto) True
        (Some \<lparr>hp_auth = None, hp_host = hst, hp_port = p, hp_hostname = h, hp_rest = pth @ s\<rparr>)
        (pth @ s)"
    by (simp add: hostStep_def sec sf(4))
  have ea: "escapeAuto (pth @ s) = pth @ s"
    by (rule escapeAuto_id) (use rc(3) in \<open>simp add: list_all_iff\<close>)
  have ih: "indexOf (cu CHR ''#'') (pth @ s) = None"
    by (rule indexOf_None) (use rc(3) in blast)
  have s4: "afterHost (Some proto) True
        (Some \<lparr>hp_auth = None, hp_host = hst, hp_port = p, hp_hostname = h, hp_rest = pth @ s\<rparr>)
        (pth @ s) =
      splitQuery (Some proto) True
        (Some \<lparr>hp_auth = None, hp_host = hst, hp_port = p, hp_hostname = h, hp_rest = pth @ s\<rparr>)
        None (pth @ s)"
    using sf(6) by (simp add: afterHost_def ea splitHash_def ih)
  have fp: "\<And>lp hp. finalPathname lp hp pth = Some pth"
    using rc(1) by (simp add: finalPathname_def)
  have s5: "splitQuery (Some proto) True
        (Some \<lparr>hp_auth = None, hp_host = hst, hp_port = p, hp_hostname = h, hp_rest = pth @ s\<rparr>)
        None (pth @ s) = Inr (resolvedUrl proto hst p h pth s)"
  proof (cases "s = []")
    case True
    have iq: "indexOf (cu CHR ''?'') pth = None" by (rule indexOf_None) (rule rc(4))
    show ?thesis
      using rc(1) format_resolved [OF ref sch hc(2), of p h None "Some pth"]
      by (simp add: True splitQuery_def iq buildUrl_def fp withHref_def resolvedUrl_def
          truthy_def orEmpty_def)
  next
    case False
    then obtain q where se: "s = cu CHR ''?'' # q" using rc(5) by (cases s) auto
    have iq: "indexOf (cu CHR ''?'') (pth @ s) = Some (length pth)"
      unfolding se by (rule indexOf_append) (rule rc(4))
    show ?thesis
      using rc(1) False format_resolved [OF ref sch hc(2), of p h "Some (drop 1 s)" "Some (pth @ s)"]
      by (simp add: splitQuery_def iq buildUrl_def fp withHref_def resolvedUrl_def
          truthy_def orEmpty_def)
  qed
  show ?thesis using s1 s2 s3 s4 s5 by (simp add: F_def)
qed

section \<open>The locator\<close>

text \<open>
  Claim C5, as amended. In a script body with a recognised reference comment, the locator
  returns the value of the first one (the comment of the shortest prefix): the rest of the
  comment's line without its trailing white space. The group \<^verbatim>\<open>(.+?)\<close> takes at least one
  code unit, so when the rest of the line is white space only, the value is its first code
  unit.
\<close>

theorem locator_first_comment:
  assumes "referenceCommentAt body pre m r"
    and "\<forall>pre' m' r'. referenceCommentAt body pre' m' r' \<longrightarrow> length pre \<le> length pre'"
  shows "getSourceMapRelativeUrl body =
           Some (if list_all isWhiteSpace (lineRest r) then take 1 (lineRest r)
                 else trimEnd (lineRest r))"
proof -
  from exec_first [OF assms] obtain ws where
    "SourceMapURLRegex_exec body = Some (mkMatch (length pre) (m, commentValue r, ws))"
    by blast
  then have "getSourceMapRelativeUrl body = Some (commentValue r)"
    by (simp add: getSourceMapRelativeUrl_def mkMatch_def)
  then show ?thesis
    by (simp add: commentValue_def trimEnd_Nil_iff)
qed

theorem locator_first_comment_witness:
  "referenceCommentAt twoComments (str ''a();'' @ [0x0A]) (cu CHR ''@'')
     (str ''x.map  '' @ [0x0A] @ str ''//# sourceMappingURL=y.map'' @ [0x0A]) \<and>
   getSourceMapRelativeUrl twoComments = Some (str ''x.map'')"
proof -
  let ?r = "str ''x.map  '' @ [0x0A] @ str ''//# sourceMappingURL=y.map'' @ [0x0A]"
  have 1: "referenceCommentAt twoComments (str ''a();'' @ [0x0A]) (cu CHR ''@'') ?r"
    by (simp add: referenceCommentAt_def twoComments_def lineRest_def str_def cu_def
        isLineTerminator_def)
  have "map_option index (SourceMapURLRegex_exec twoComments) = Some 5"
    by code_simp
  then obtain M where M: "SourceMapURLRegex_exec twoComments = Some M" "index M = 5" by auto
  have 2: "\<forall>pre' m' r'. referenceCommentAt twoComments pre' m' r' \<longrightarrow>
      length (str ''a();'' @ [0x0A]) \<le> length pre'"
  proof -
    have "length (str ''a();'' @ [0x0A :: jschar]) = index M"
      by (simp add: str_def M(2))
    then show ?thesis using exec_index_least [OF M(1)] by simp
  qed
  have 3: "(if list_all isWhiteSpace (lineRest ?r) then take 1 (lineRest ?r)
            else trimEnd (lineRest ?r)) = str ''x.map''"
    by code_simp
  from locator_first_comment [OF 1 2]
  have "getSourceMapRelativeUrl twoComments = Some (str ''x.map'')"
    unfolding 3 .
  with 1 show ?thesis ..
qed

text \<open>
  The claim as stated fails on the body \<^verbatim>\<open>//# sourceMappingURL=\<close> followed by two blanks:
  the comment is recognised and the value returned is one blank, not the trimmed rest of
  the line (the empty string).
\<close>

theorem locator_untrimmed_counterexample:
  "referenceCommentAt (str ''//# sourceMappingURL=  '') [] (cu CHR ''#'') (str ''  '') \<and>
   trimEnd (lineRest (str ''  '')) = [] \<and>
   getSourceMapRelativeUrl (str ''//# sourceMappingURL=  '') = Some (str '' '') \<and>
   getSourceMapRelativeUrl (str ''//# sourceMappingURL=  '') \<noteq> Some (trimEnd (lineRest (str ''  '')))"
proof -
  have 1: "referenceCommentAt (str ''//# sourceMappingURL=  '') [] (cu CHR ''#'') (str ''  '')"
    by (simp add: referenceCommentAt_def lineRest_def str_def cu_def isLineTerminator_def)
  have 2: "trimEnd (lineRest (str ''  '')) = []"
    by (simp add: trimEnd_def lineRest_def str_def cu_def isLineTerminator_def isWhiteSpace_def)
  have 3: "getSourceMapRelativeUrl (str ''//# sourceMappingURL=  '') = Some (str '' '')"
    by code_simp
  have 4: "str '' '' \<noteq> []" by (simp add: str_def)
  from 1 2 3 4 show ?thesis by simp
qed

text \<open>
  Claim C6. For a script body without a recognised reference comment the locator returns
  \<^verbatim>\<open>null\<close>, and so does \<^verbatim>\<open>getSourceMapURL\<close>, for every script location and whatever
  \<^verbatim>\<open>url.parse\<close> and \<^verbatim>\<open>url.format\<close> would do: they are not called.
\<close>

theorem no_reference_not_found:
  assumes "\<forall>pre m r. \<not> referenceCommentAt body pre m r"
  shows "getSourceMapRelativeUrl body = None \<and> getSourceMapURL U scriptUrl body = Inr None"
proof -
  from assms have "getSourceMapRelativeUrl body = None"
    by (simp add: locator_None_iff)
  then show ?thesis by (simp add: getSourceMapURL_None)
qed

theorem no_reference_not_found_witness:
  "(\<forall>pre m r. \<not> referenceCommentAt (str ''var a = 1; // done'') pre m r) \<and>
   getSourceMapRelativeUrl (str ''var a = 1; // done'') = None \<and>
   getSourceMapURL throwingUrl exampleScriptUrl (str ''var a = 1; // done'') = Inr None"
proof -
  have "getSourceMapRelativeUrl (str ''var a = 1; // done'') = None" by code_simp
  then have h: "\<forall>pre m r. \<not> referenceCommentAt (str ''var a = 1; // done'') pre m r"
    by (simp add: locator_None_iff)
  from no_reference_not_found [OF h, of throwingUrl exampleScriptUrl] h show ?thesis by simp
qed

text \<open>
  Claim C10. The pattern has exactly one space between the marker \<^verbatim>\<open>//#\<close> or \<^verbatim>\<open>//@\<close> and
  \<^verbatim>\<open>sourceMappingURL=\<close>: a body in which neither \<^verbatim>\<open>//# sourceMappingURL=\<close> nor
  \<^verbatim>\<open>//@ sourceMappingURL=\<close> occurs, such as one whose candidate line has no space or two,
  has no reference for \<^verbatim>\<open>getSourceMapRelativeUrl\<close> and \<^verbatim>\<open>getSourceMapURL\<close>.
\<close>

theorem single_space_required:
  assumes "\<not> occursIn (str ''//# sourceMappingURL='') body"
    and "\<not> occursIn (str ''//@ sourceMappingURL='') body"
  shows "getSourceMapRelativeUrl body = None \<and> getSourceMapURL U scriptUrl body = Inr None"
proof -
  have "\<not> referenceCommentAt body pre m r" for pre m r
  proof
    assume c: "referenceCommentAt body pre m r"
    then have b: "body = pre @ str ''//'' @ [m] @ str '' sourceMappingURL='' @ r"
      and m: "m = cu CHR ''#'' \<or> m = cu CHR ''@''"
      by (simp_all add: referenceCommentAt_def)
    from m show False
    proof
      assume "m = cu CHR ''#''"
      with b have "body = pre @ str ''//# sourceMappingURL='' @ r"
        using marker_literals(1) [of r] by simp
      then have "occursIn (str ''//# sourceMappingURL='') body"
        unfolding occursIn_iff by blast
      with assms(1) show False ..
    next
      assume "m = cu CHR ''@''"
      with b have "body = pre @ str ''//@ sourceMappingURL='' @ r"
        using marker_literals(2) [of r] by simp
      then have "occursIn (str ''//@ sourceMappingURL='') body"
        unfolding occursIn_iff by blast
      with assms(2) show False ..
    qed
  qed
  then have "getSourceMapRelativeUrl body = None"
    by (simp add: locator_None_iff)
  then show ?thesis by (simp add: getSourceMapURL_None)
qed

theorem single_space_required_witness:
  "\<not> occursIn (str ''//# sourceMappingURL='') (str ''a();//#sourceMappingURL=foo.map'') \<and>
   \<not> occursIn (str ''//@ sourceMappingURL='') (str ''a();//#sourceMappingURL=foo.map'') \<and>
   getSourceMapRelativeUrl (str ''a();//#sourceMappingURL=foo.map'') = None \<and>
   getSourceMapURL throwingUrl exampleScriptUrl (str ''a();//#sourceMappingURL=foo.map'') = Inr None \<and>
   \<not> occursIn (str ''//# sourceMappingURL='') (str ''a();//@  sourceMappingURL=foo.map'') \<and>
   \<not> occursIn (str ''//@ sourceMappingURL='') (str ''a();//@  sourceMappingURL=foo.map'') \<and>
   getSourceMapRelativeUrl (str ''a();//@  sourceMappingURL=foo.map'') = None \<and>
   getSourceMapURL throwingUrl exampleScriptUrl (str ''a();//@  sourceMappingURL=foo.map'') = Inr None"
proof -
  have 1: "\<not> occursIn (str ''//# sourceMappingURL='') (str ''a();//#sourceMappingURL=foo.map'')"
    by code_simp
  have 2: "\<not> occursIn (str ''//@ sourceMappingURL='') (str ''a();//#sourceMappingURL=foo.map'')"
    by code_simp
  have 3: "\<not> occursIn (str ''//# sourceMappingURL='') (str ''a();//@  sourceMappingURL=foo.map'')"
    by code_simp
  have 4: "\<not> occursIn (str ''//@ sourceMappingURL='') (str ''a();//@  sourceMappingURL=foo.map'')"
    by code_simp
  from single_space_required [OF 1 2, of throwingUrl exampleScriptUrl]
    single_space_required [OF 3 4, of throwingUrl exampleScriptUrl] 1 2 3 4
  show ?thesis by simp
qed

section \<open>The rewriter\<close>

text \<open>
  Claim C4, as amended. For a script body with a recognised reference comment and a new
  location whose \<^verbatim>\<open>pathname\<close> has the base name \<open>base\<close> (\<^verbatim>\<open>path.basename\<close>: the last part
  of the path; query and hash are not part of \<^verbatim>\<open>pathname\<close>), where \<open>base\<close> has no dollar
  sign, \<^verbatim>\<open>updateScriptPaths\<close> replaces the first comment, from its marker to the end of the
  white space \<open>ws\<close> that the pattern takes after the value, by \<^verbatim>\<open>//# sourceMappingURL=\<close>
  and \<open>base\<close>, whatever the marker was. \<open>ws\<close> is the longest run of white space after
  the value that ends at a line end, so it takes in blank lines that follow the comment.
  The text \<open>pre\<close> in front of the comment and the text \<open>post\<close> behind \<open>ws\<close> stay as
  they are.
\<close>

theorem updateScriptPaths_rewrites:
  assumes "referenceCommentAt scriptBody pre m r"
    and "\<forall>pre' m' r'. referenceCommentAt scriptBody pre' m' r' \<longrightarrow> length pre \<le> length pre'"
    and "path_basename P (pathname sourceMappingUrl) = Inr base"
    and "cu CHR ''$'' \<notin> set base"
  shows "\<exists>ws post. r = commentValue r @ ws @ post \<and> list_all isWhiteSpace ws \<and> atLineEnd post \<and>
          (\<forall>ws' post'. r = commentValue r @ ws' @ post' \<and> list_all isWhiteSpace ws' \<and>
              atLineEnd post' \<longrightarrow> length ws' \<le> length ws) \<and>
          updateScriptPaths P scriptBody sourceMappingUrl =
            Inr (pre @ str ''//# sourceMappingURL='' @ base @ post)"
proof -
  have plain: "cu CHR ''$'' \<notin> set (str ''//# sourceMappingURL='' @ base)"
    using assms(4) literal_plain by simp
  from String_replace_first [OF assms(1,2) plain] obtain ws post where
    *: "r = commentValue r @ ws @ post" "list_all isWhiteSpace ws" "atLineEnd post"
    "\<forall>ws' post'. r = commentValue r @ ws' @ post' \<and> list_all isWhiteSpace ws' \<and>
              atLineEnd post' \<longrightarrow> length ws' \<le> length ws"
    "String_replace scriptBody (str ''//# sourceMappingURL='' @ base) =
       pre @ (str ''//# sourceMappingURL='' @ base) @ post"
    by blast
  from *(5) assms(3) have "updateScriptPaths P scriptBody sourceMappingUrl =
            Inr (pre @ str ''//# sourceMappingURL='' @ base @ post)"
    by (simp add: updateScriptPaths_def)
  with *(1-4) show ?thesis by blast
qed

theorem updateScriptPaths_rewrites_witness:
  "referenceCommentAt threeLineBody (str ''a();'' @ [0x0A]) (cu CHR ''@'')
      (str ''old/path.map'' @ [0x0A] @ str ''b();'') \<and>
   path_basename (posixPath (str ''/'')) (pathname newMapUrl) = Inr (str ''new.map'') \<and>
   cu CHR ''$'' \<notin> set (str ''new.map'') \<and>
   (\<exists>ws post. str ''old/path.map'' @ [0x0A] @ str ''b();'' =
        commentValue (str ''old/path.map'' @ [0x0A] @ str ''b();'') @ ws @ post \<and>
      updateScriptPaths (posixPath (str ''/'')) threeLineBody newMapUrl =
        Inr ((str ''a();'' @ [0x0A]) @ str ''//# sourceMappingURL='' @ str ''new.map'' @ post)) \<and>
   updateScriptPaths (posixPath (str ''/'')) threeLineBody newMapUrl =
     Inr (str ''a();'' @ [0x0A] @ str ''//# sourceMappingURL=new.map'' @ [0x0A] @ str ''b();'')"
proof -
  let ?r = "str ''old/path.map'' @ [0x0A] @ str ''b();''"
  have 1: "referenceCommentAt threeLineBody (str ''a();'' @ [0x0A]) (cu CHR ''@'') ?r"
    by (simp add: referenceCommentAt_def threeLineBody_def lineRest_def str_def cu_def
        isLineTerminator_def)
  have "map_option index (SourceMapURLRegex_exec threeLineBody) = Some 5"
    by code_simp
  then obtain M where M: "SourceMapURLRegex_exec threeLineBody = Some M" "index M = 5" by auto
  have 2: "\<forall>pre' m' r'. referenceCommentAt threeLineBody pre' m' r' \<longrightarrow>
      length (str ''a();'' @ [0x0A]) \<le> length pre'"
  proof -
    have "length (str ''a();'' @ [0x0A :: jschar]) = index M"
      by (simp add: str_def M(2))
    then show ?thesis using exec_index_least [OF M(1)] by simp
  qed
  have 3: "path_basename (posixPath (str ''/'')) (pathname newMapUrl) = Inr (str ''new.map'')"
    by code_simp
  have 4: "cu CHR ''$'' \<notin> set (str ''new.map'')"
    by (simp add: str_def cu_def)
  have 5: "updateScriptPaths (posixPath (str ''/'')) threeLineBody newMapUrl =
     Inr (str ''a();'' @ [0x0A] @ str ''//# sourceMappingURL=new.map'' @ [0x0A] @ str ''b();'')"
    by code_simp
  from updateScriptPaths_rewrites [OF 1 2 3 4]
  have 6: "\<exists>ws post. ?r = commentValue ?r @ ws @ post \<and>
      updateScriptPaths (posixPath (str ''/'')) threeLineBody newMapUrl =
        Inr ((str ''a();'' @ [0x0A]) @ str ''//# sourceMappingURL='' @ str ''new.map'' @ post)"
    by blast
  from 1 3 4 5 6 show ?thesis by blast
qed

text \<open>
  The claim as stated fails on a body whose comment is followed by a blank line: the
  blank line is part of the match and is gone from the result.
\<close>

theorem updateScriptPaths_blank_line_counterexample:
  "referenceCommentAt blankLineBody [] (cu CHR ''@'')
      (str ''old/path.map '' @ [0x0A, 0x0A] @ str ''next();'') \<and>
   blankLineBody = str ''//@ sourceMappingURL=old/path.map '' @ [0x0A] @ [0x0A] @ str ''next();'' \<and>
   path_basename (posixPath (str ''/'')) (pathname newMapUrl) = Inr (str ''new.map'') \<and>
   updateScriptPaths (posixPath (str ''/'')) blankLineBody newMapUrl =
     Inr (str ''//# sourceMappingURL=new.map'' @ [0x0A] @ str ''next();'') \<and>
   updateScriptPaths (posixPath (str ''/'')) blankLineBody newMapUrl \<noteq>
     Inr (str ''//# sourceMappingURL=new.map'' @ [0x0A] @ [0x0A] @ str ''next();'')"
proof -
  have 1: "referenceCommentAt blankLineBody [] (cu CHR ''@'')
      (str ''old/path.map '' @ [0x0A, 0x0A] @ str ''next();'')"
    by (simp add: referenceCommentAt_def blankLineBody_def lineRest_def str_def cu_def
        isLineTerminator_def)
  have 2: "blankLineBody = str ''//@ sourceMappingURL=old/path.map '' @ [0x0A] @ [0x0A] @ str ''next();''"
    by (simp add: blankLineBody_def)
  have 3: "path_basename (posixPath (str ''/'')) (pathname newMapUrl) = Inr (str ''new.map'')"
    by code_simp
  have 4: "updateScriptPaths (posixPath (str ''/'')) blankLineBody newMapUrl =
     Inr (str ''//# sourceMappingURL=new.map'' @ [0x0A] @ str ''next();'')"
    by code_simp
  have 5: "str ''//# sourceMappingURL=new.map'' @ [0x0A] @ str ''next();'' \<noteq>
     str ''//# sourceMappingURL=new.map'' @ [0x0A] @ [0x0A] @ str ''next();''"
    by (simp add: str_def cu_def)
  from 1 2 3 4 5 show ?thesis by simp
qed

section \<open>The normalizer\<close>

text \<open>
  Claim C1. When the text parses to an object whose \<^verbatim>\<open>sources\<close> is an array of strings,
  \<^verbatim>\<open>updateSourceMapFile\<close> returns the serialization of an object in which every entry of
  \<^verbatim>\<open>sources\<close> is \<^verbatim>\<open>path.relative\<close> of the root directory and the entry, split at
  \<^verbatim>\<open>path.sep\<close> and joined by \<^verbatim>\<open>path.posix.join\<close>, \<^verbatim>\<open>sourcesContent\<close> is absent,
  \<^verbatim>\<open>sourceRoot\<close> is the empty string and \<^verbatim>\<open>file\<close> is the script path. On POSIX the
  root \<^verbatim>\<open>/proj/src\<close> and the entry \<^verbatim>\<open>/proj/src/app/index.js\<close> give \<^verbatim>\<open>app/index.js\<close> (the
  witness).
\<close>

theorem updateSourceMapFile_normalizes:
  assumes "JSON_parse J sourceMapBody = Inr (JObject props)"
    and "map_of props (str ''sources'') = Some (JArray (map JString sources))"
  shows "\<exists>props'. updateSourceMapFile J P sourceMapBody scriptPath sourcesRootPath =
            Inr (JSON_stringify J (JObject props')) \<and>
          map_of props' (str ''sources'') =
            Some (JArray (map (\<lambda>s. JString (posix_join (splitOn (path_sep P)
                                  (path_relative P sourcesRootPath s)))) sources)) \<and>
          map_of props' (str ''sourcesContent'') = None \<and>
          map_of props' (str ''sourceRoot'') = Some (JString []) \<and>
          map_of props' (str ''file'') = Some (JString scriptPath)"
proof -
  let ?new = "AList.update (str ''file'') (JString scriptPath)
         (AList.update (str ''sourceRoot'') (JString [])
           (AList.delete (str ''sourcesContent'')
             (AList.update (str ''sources'')
                (JArray (map (\<lambda>s. JString (updateSourceMapPath P s sourcesRootPath)) sources)) props)))"
  have "updateSourceMapFile J P sourceMapBody scriptPath sourcesRootPath =
            Inr (JSON_stringify J (JObject ?new))"
    by (rule updateSourceMapFile_document [OF assms])
  moreover have "map_of ?new (str ''sources'') =
      Some (JArray (map (\<lambda>s. JString (posix_join (splitOn (path_sep P)
                                  (path_relative P sourcesRootPath s)))) sources))"
    by (simp add: update_conv' delete_conv' key_distinct key_distinct [symmetric]
        updateSourceMapPath_def makeUnixStylePath_def)
  moreover have "map_of ?new (str ''sourcesContent'') = None"
    by (simp add: update_conv' delete_conv' key_distinct key_distinct [symmetric])
  moreover have "map_of ?new (str ''sourceRoot'') = Some (JString [])"
    by (simp add: update_conv' delete_conv' key_distinct key_distinct [symmetric])
  moreover have "map_of ?new (str ''file'') = Some (JString scriptPath)"
    by (simp add: update_conv' delete_conv')
  ultimately show ?thesis by blast
qed

theorem updateSourceMapFile_normalizes_witness:
  "JSON_parse exampleJSON exampleMapText = Inr exampleMap \<and>
   (\<exists>props'. updateSourceMapFile exampleJSON (posixPath (str ''/home/u'')) exampleMapText
                (str ''/out/index.ios.bundle'') (str ''/proj/src'') =
              Inr (JSON_stringify exampleJSON (JObject props')) \<and>
      map_of props' (str ''sources'') =
         Some (JArray [JString (str ''app/index.js''), JString (str ''../../other/lib.js'')]) \<and>
      map_of props' (str ''sourcesContent'') = None \<and>
      map_of props' (str ''sourceRoot'') = Some (JString []) \<and>
      map_of props' (str ''file'') = Some (JString (str ''/out/index.ios.bundle'')))"
proof -
  let ?props = "[(str ''version'', JNumber (3::nat)),
      (str ''sources'', JArray [JString (str ''/proj/src/app/index.js''), JString (str ''/other/lib.js'')]),
      (str ''sourcesContent'', JArray [JString (str ''a''), JString (str ''b'')]),
      (str ''mappings'', JString (str ''AAAA'')),
      (str ''sourceRoot'', JString (str ''/proj'')),
      (str ''x_custom'', JBoolean True)]"
  have 1: "JSON_parse exampleJSON exampleMapText = Inr (JObject ?props)"
    by (simp add: exampleJSON_def exampleMap_def)
  have 2: "map_of ?props (str ''sources'') =
      Some (JArray (map JString [str ''/proj/src/app/index.js'', str ''/other/lib.js'']))"
    by (simp add: key_distinct str_def cu_def)
  have 3: "posix_join (splitOn (path_sep (posixPath (str ''/home/u'')))
             (path_relative (posixPath (str ''/home/u'')) (str ''/proj/src'')
                (str ''/proj/src/app/index.js''))) = str ''app/index.js''"
    by code_simp
  have 4: "posix_join (splitOn (path_sep (posixPath (str ''/home/u'')))
             (path_relative (posixPath (str ''/home/u'')) (str ''/proj/src'')
                (str ''/other/lib.js''))) = str ''../../other/lib.js''"
    by code_simp
  from updateSourceMapFile_normalizes [OF 1 2, of "posixPath (str ''/home/u'')"
      "str ''/out/index.ios.bundle''" "str ''/proj/src''"]
  show ?thesis unfolding list.map 3 4 using 1 by (simp add: exampleMap_def)
qed

text \<open>
  Claim C3. When \<^verbatim>\<open>JSON.parse\<close> throws, or returns a value that is not an object whose
  \<^verbatim>\<open>sources\<close> is an array of strings (\<^verbatim>\<open>null\<close>, a number, a string, an array, an object
  without \<^verbatim>\<open>sources\<close>, ...), the \<^verbatim>\<open>try\<close> block throws and \<^verbatim>\<open>updateSourceMapFile\<close>
  returns the input text itself, without raising.
\<close>

theorem updateSourceMapFile_fallback:
  assumes "JSON_parse J sourceMapBody = Inl e \<or>
           (\<exists>v. JSON_parse J sourceMapBody = Inr v \<and> \<not> isSourceMapDocument v)"
  shows "updateSourceMapFile J P sourceMapBody scriptPath sourcesRootPath = Inr sourceMapBody"
  using assms
proof
  assume "JSON_parse J sourceMapBody = Inl e"
  then show ?thesis
    by (simp add: updateSourceMapFile_def updateSourceMapFile_try_def)
next
  assume "\<exists>v. JSON_parse J sourceMapBody = Inr v \<and> \<not> isSourceMapDocument v"
  then obtain v where "JSON_parse J sourceMapBody = Inr v" "\<not> isSourceMapDocument v" by blast
  from try_not_document [OF this] obtain e' where
    "updateSourceMapFile_try J P sourceMapBody scriptPath sourcesRootPath = Inl e'" by blast
  then show ?thesis by (simp add: updateSourceMapFile_def)
qed

theorem updateSourceMapFile_fallback_witness:
  "JSON_parse exampleJSON (str ''{oops'') = Inl SyntaxError \<and>
   updateSourceMapFile exampleJSON (posixPath (str ''/home/u'')) (str ''{oops'')
       (str ''/out/index.ios.bundle'') (str ''/proj/src'') = Inr (str ''{oops'') \<and>
   JSON_parse exampleJSON (str ''[1,2]'') = Inr (JArray [JNumber 1, JNumber 2]) \<and>
   \<not> isSourceMapDocument (JArray [JNumber (1::nat), JNumber 2]) \<and>
   updateSourceMapFile exampleJSON (posixPath (str ''/home/u'')) (str ''[1,2]'')
       (str ''/out/index.ios.bundle'') (str ''/proj/src'') = Inr (str ''[1,2]'')"
proof -
  have 1: "JSON_parse exampleJSON (str ''{oops'') = Inl SyntaxError"
    by code_simp
  have 2: "JSON_parse exampleJSON (str ''[1,2]'') = Inr (JArray [JNumber 1, JNumber 2])"
    by code_simp
  have 3: "\<not> isSourceMapDocument (JArray [JNumber (1::nat), JNumber 2])"
    by (simp add: isSourceMapDocument_def)
  from 1 have a: "JSON_parse exampleJSON (str ''{oops'') = Inl SyntaxError \<or>
      (\<exists>v. JSON_parse exampleJSON (str ''{oops'') = Inr v \<and> \<not> isSourceMapDocument v)" ..
  from 2 3 have b: "JSON_parse exampleJSON (str ''[1,2]'') = Inl SyntaxError \<or>
      (\<exists>v. JSON_parse exampleJSON (str ''[1,2]'') = Inr v \<and> \<not> isSourceMapDocument v)"
    by blast
  from updateSourceMapFile_fallback [OF a] updateSourceMapFile_fallback [OF b] 1 2 3
  show ?thesis by blast
qed

text \<open>
  Claim C8. In the object that a successful \<^verbatim>\<open>updateSourceMapFile\<close> serializes,
  \<^verbatim>\<open>mappings\<close>, \<^verbatim>\<open>names\<close>, \<^verbatim>\<open>version\<close> and every property other than \<^verbatim>\<open>sources\<close>,
  \<^verbatim>\<open>sourcesContent\<close>, \<^verbatim>\<open>sourceRoot\<close> and \<^verbatim>\<open>file\<close> have the values that \<^verbatim>\<open>JSON.parse\<close>
  returned for the input.
\<close>

theorem updateSourceMapFile_frame:
  assumes "JSON_parse J sourceMapBody = Inr (JObject props)"
    and "map_of props (str ''sources'') = Some (JArray (map JString sources))"
  shows "\<exists>props'. updateSourceMapFile J P sourceMapBody scriptPath sourcesRootPath =
            Inr (JSON_stringify J (JObject props')) \<and>
          map_of props' (str ''mappings'') = map_of props (str ''mappings'') \<and>
          map_of props' (str ''names'') = map_of props (str ''names'') \<and>
          map_of props' (str ''version'') = map_of props (str ''version'') \<and>
          (\<forall>name. name \<noteq> str ''sources'' \<and> name \<noteq> str ''sourcesContent'' \<and>
                  name \<noteq> str ''sourceRoot'' \<and> name \<noteq> str ''file'' \<longrightarrow>
                  map_of props' name = map_of props name)"
proof -
  let ?new = "AList.update (str ''file'') (JString scriptPath)
         (AList.update (str ''sourceRoot'') (JString [])
           (AList.delete (str ''sourcesContent'')
             (AList.update (str ''sources'')
                (JArray (map (\<lambda>s. JString (updateSourceMapPath P s sourcesRootPath)) sources)) props)))"
  have 1: "updateSourceMapFile J P sourceMapBody scriptPath sourcesRootPath =
            Inr (JSON_stringify J (JObject ?new))"
    by (rule updateSourceMapFile_document [OF assms])
  have 2: "map_of ?new name = map_of props name"
    if "name \<noteq> str ''sources''" "name \<noteq> str ''sourcesContent''"
      "name \<noteq> str ''sourceRoot''" "name \<noteq> str ''file''" for name
    using that by (simp add: update_conv' delete_conv')
  have 3: "map_of ?new (str ''mappings'') = map_of props (str ''mappings'')"
    by (rule 2) (simp_all add: str_def cu_def)
  have 4: "map_of ?new (str ''names'') = map_of props (str ''names'')"
    by (rule 2) (simp_all add: str_def cu_def)
  have 5: "map_of ?new (str ''version'') = map_of props (str ''version'')"
    by (rule 2) (simp_all add: str_def cu_def)
  from 1 2 3 4 5 show ?thesis by blast
qed

theorem updateSourceMapFile_frame_witness:
  "JSON_parse exampleJSON exampleMapText = Inr exampleMap \<and>
   (\<exists>props'. updateSourceMapFile exampleJSON (posixPath (str ''/home/u'')) exampleMapText
                (str ''/out/index.ios.bundle'') (str ''/proj/src'') =
              Inr (JSON_stringify exampleJSON (JObject props')) \<and>
      map_of props' (str ''mappings'') = Some (JString (str ''AAAA'')) \<and>
      map_of props' (str ''names'') = None \<and>
      map_of props' (str ''version'') = Some (JNumber 3) \<and>
      map_of props' (str ''x_custom'') = Some (JBoolean True))"
proof -
  let ?props = "[(str ''version'', JNumber (3::nat)),
      (str ''sources'', JArray [JString (str ''/proj/src/app/index.js''), JString (str ''/other/lib.js'')]),
      (str ''sourcesContent'', JArray [JString (str ''a''), JString (str ''b'')]),
      (str ''mappings'', JString (str ''AAAA'')),
      (str ''sourceRoot'', JString (str ''/proj'')),
      (str ''x_custom'', JBoolean True)]"
  have 1: "JSON_parse exampleJSON exampleMapText = Inr (JObject ?props)"
    by (simp add: exampleJSON_def exampleMap_def)
  have 2: "map_of ?props (str ''sources'') =
      Some (JArray (map JString [str ''/proj/src/app/index.js'', str ''/other/lib.js'']))"
    by (simp add: key_distinct str_def cu_def)
  have 3: "map_of ?props (str ''mappings'') = Some (JString (str ''AAAA''))"
    "map_of ?props (str ''names'') = None" "map_of ?props (str ''version'') = Some (JNumber 3)"
    "map_of ?props (str ''x_custom'') = Some (JBoolean True)"
    by (simp_all add: str_def cu_def)
  have 4: "str ''x_custom'' \<noteq> str ''sources'' \<and> str ''x_custom'' \<noteq> str ''sourcesContent'' \<and>
      str ''x_custom'' \<noteq> str ''sourceRoot'' \<and> str ''x_custom'' \<noteq> str ''file''"
    by (simp add: str_def cu_def)
  from updateSourceMapFile_frame [OF 1 2, of "posixPath (str ''/home/u'')"
      "str ''/out/index.ios.bundle''" "str ''/proj/src''"]
  obtain props' where *: "updateSourceMapFile exampleJSON (posixPath (str ''/home/u'')) exampleMapText
                (str ''/out/index.ios.bundle'') (str ''/proj/src'') =
              Inr (JSON_stringify exampleJSON (JObject props'))"
     "map_of props' (str ''mappings'') = map_of ?props (str ''mappings'')"
     "map_of props' (str ''names'') = map_of ?props (str ''names'')"
     "map_of props' (str ''version'') = map_of ?props (str ''version'')"
     "\<forall>name. name \<noteq> str ''sources'' \<and> name \<noteq> str ''sourcesContent'' \<and>
                  name \<noteq> str ''sourceRoot'' \<and> name \<noteq> str ''file'' \<longrightarrow>
                  map_of props' name = map_of ?props name"
    by blast
  from *(5) 4 have "map_of props' (str ''x_custom'') = map_of ?props (str ''x_custom'')"
    by blast
  with * 3 1 show ?thesis unfolding exampleMap_def by metis
qed

text \<open>
  Claim C7, as amended. Take a document that is already normalized for a script path and a
  root directory: \<^verbatim>\<open>sourceRoot\<close> empty, \<^verbatim>\<open>sourcesContent\<close> absent, \<^verbatim>\<open>file\<close> the
  script path, and every entry of \<^verbatim>\<open>sources\<close> the result of \<^verbatim>\<open>updateSourceMapPath\<close> for that
  root. \<^verbatim>\<open>updateSourceMapFile\<close> with the same script path and root gives the same
  \<^verbatim>\<open>sourceRoot\<close> and \<^verbatim>\<open>file\<close> (and leaves \<^verbatim>\<open>sourcesContent\<close> absent). It gives the same
  \<^verbatim>\<open>sources\<close> on POSIX when the root directory resolves to the working directory: \<^verbatim>\<open>path.relative\<close>
  resolves the entries, which are relative paths now, against \<^verbatim>\<open>process.cwd()\<close>.
\<close>

theorem renormalize_same_fields:
  assumes "JSON_parse J sourceMapBody = Inr (JObject props)"
    and "map_of props (str ''sources'') =
           Some (JArray (map (\<lambda>s. JString (updateSourceMapPath P s sourcesRootPath)) sources))"
    and "map_of props (str ''sourceRoot'') = Some (JString [])"
    and "map_of props (str ''sourcesContent'') = None"
    and "map_of props (str ''file'') = Some (JString scriptPath)"
  shows "\<exists>props'. updateSourceMapFile J P sourceMapBody scriptPath sourcesRootPath =
            Inr (JSON_stringify J (JObject props')) \<and>
          map_of props' (str ''sourceRoot'') = map_of props (str ''sourceRoot'') \<and>
          map_of props' (str ''file'') = map_of props (str ''file'') \<and>
          map_of props' (str ''sourcesContent'') = map_of props (str ''sourcesContent'') \<and>
          (P = posixPath cwd \<and> isNormalParts cwdParts \<and> cwd = absPath cwdParts \<and>
             posix_resolve cwd [sourcesRootPath] = cwd \<longrightarrow>
           map_of props' (str ''sources'') = map_of props (str ''sources''))"
proof -
  let ?P = P
  let ?once = "map (\<lambda>s. updateSourceMapPath ?P s sourcesRootPath) sources"
  let ?new = "AList.update (str ''file'') (JString scriptPath)
         (AList.update (str ''sourceRoot'') (JString [])
           (AList.delete (str ''sourcesContent'')
             (AList.update (str ''sources'')
                (JArray (map (\<lambda>s. JString (updateSourceMapPath ?P s sourcesRootPath)) ?once)) props)))"
  from assms(2) have src: "map_of props (str ''sources'') = Some (JArray (map JString ?once))"
    by (simp add: comp_def)
  have 1: "updateSourceMapFile J ?P sourceMapBody scriptPath sourcesRootPath =
            Inr (JSON_stringify J (JObject ?new))"
    by (rule updateSourceMapFile_document [OF assms(1) src])
  have 2: "map_of ?new (str ''sourceRoot'') = map_of props (str ''sourceRoot'')"
    by (simp add: update_conv' delete_conv' key_distinct key_distinct [symmetric] assms(3))
  have 3: "map_of ?new (str ''file'') = map_of props (str ''file'')"
    by (simp add: update_conv' delete_conv' assms(5))
  have 4: "map_of ?new (str ''sourcesContent'') = map_of props (str ''sourcesContent'')"
    by (simp add: update_conv' delete_conv' key_distinct key_distinct [symmetric] assms(4))
  have 5: "map_of ?new (str ''sources'') = map_of props (str ''sources'')"
    if "P = posixPath cwd \<and> isNormalParts cwdParts \<and> cwd = absPath cwdParts \<and>
        posix_resolve cwd [sourcesRootPath] = cwd"
  proof -
    from that have pc: "P = posixPath cwd" and n: "isNormalParts cwdParts"
      and c: "cwd = absPath cwdParts"
      and rr: "posix_resolve cwd [sourcesRootPath] = cwd" by blast+
    have idem: "updateSourceMapPath ?P (updateSourceMapPath ?P x sourcesRootPath) sourcesRootPath =
        updateSourceMapPath ?P x sourcesRootPath" for x
      unfolding pc by (rule updateSourceMapPath_idem [OF n c rr])
    have mm: "map (\<lambda>s. JString (updateSourceMapPath ?P s sourcesRootPath)) ?once =
        map (\<lambda>s. JString (updateSourceMapPath ?P s sourcesRootPath)) sources"
      by (simp add: idem)
    have "map_of ?new (str ''sources'') =
        Some (JArray (map (\<lambda>s. JString (updateSourceMapPath ?P s sourcesRootPath)) ?once))"
      by (simp add: update_conv' delete_conv' key_distinct key_distinct [symmetric])
    then show ?thesis
      unfolding mm assms(2) .
  qed
  from 1 2 3 4 5 show ?thesis by blast
qed

theorem renormalize_same_fields_witness:
  "JSON_parse exampleJSON normalizedMapText = Inr normalizedMap \<and>
   isNormalParts [str ''proj'', str ''src''] \<and>
   str ''/proj/src'' = absPath [str ''proj'', str ''src''] \<and>
   posix_resolve (str ''/proj/src'') [str ''/proj/src''] = str ''/proj/src'' \<and>
   (\<exists>props'. updateSourceMapFile exampleJSON (posixPath (str ''/proj/src'')) normalizedMapText
                (str ''/out/index.ios.bundle'') (str ''/proj/src'') =
              Inr (JSON_stringify exampleJSON (JObject props')) \<and>
      map_of props' (str ''sourceRoot'') = Some (JString []) \<and>
      map_of props' (str ''file'') = Some (JString (str ''/out/index.ios.bundle'')) \<and>
      map_of props' (str ''sourcesContent'') = None \<and>
      map_of props' (str ''sources'') =
        Some (JArray [JString (str ''app/index.js''), JString (str ''../../other/lib.js'')])) \<and>
   updateSourceMapFile exampleJSON (posixPath (str ''/proj/src'')) normalizedMapText
     (str ''/out/index.ios.bundle'') (str ''/proj/src'') = Inr normalizedMapText"
proof -
  let ?props = "[(str ''version'', JNumber (3::nat)),
      (str ''sources'', JArray [JString (str ''app/index.js''), JString (str ''../../other/lib.js'')]),
      (str ''mappings'', JString (str ''AAAA'')),
      (str ''sourceRoot'', JString []),
      (str ''x_custom'', JBoolean True),
      (str ''file'', JString (str ''/out/index.ios.bundle''))]"
  let ?P = "posixPath (str ''/proj/src'')"
  have 0: "JSON_parse exampleJSON normalizedMapText = Inr normalizedMap"
    by code_simp
  then have 1: "JSON_parse exampleJSON normalizedMapText = Inr (JObject ?props)"
    by (simp add: normalizedMap_def)
  have a: "updateSourceMapPath ?P (str ''/proj/src/app/index.js'') (str ''/proj/src'') = str ''app/index.js''"
    by code_simp
  have b: "updateSourceMapPath ?P (str ''/other/lib.js'') (str ''/proj/src'') = str ''../../other/lib.js''"
    by code_simp
  have 2: "map_of ?props (str ''sources'') =
      Some (JArray (map (\<lambda>s. JString (updateSourceMapPath ?P s (str ''/proj/src'')))
         [str ''/proj/src/app/index.js'', str ''/other/lib.js'']))"
    unfolding list.map a b by (simp add: str_def cu_def)
  have 3: "map_of ?props (str ''sourceRoot'') = Some (JString [])"
    by (simp add: str_def cu_def)
  have 4: "map_of ?props (str ''sourcesContent'') = None"
    by (simp add: str_def cu_def)
  have 5: "map_of ?props (str ''file'') = Some (JString (str ''/out/index.ios.bundle''))"
    by (simp add: str_def cu_def)
  have 6: "isNormalParts [str ''proj'', str ''src'']"
    by (simp add: isNormalParts_def str_def cu_def)
  have 7: "str ''/proj/src'' = absPath [str ''proj'', str ''src'']"
    by (simp add: absPath_def str_def)
  have 8: "posix_resolve (str ''/proj/src'') [str ''/proj/src''] = str ''/proj/src''"
    by code_simp
  have 9: "updateSourceMapFile exampleJSON ?P normalizedMapText
     (str ''/out/index.ios.bundle'') (str ''/proj/src'') = Inr normalizedMapText"
    by code_simp
  from renormalize_same_fields [where cwd = "str ''/proj/src''"
      and cwdParts = "[str ''proj'', str ''src'']", OF 1 2 3 4 5] 6 7 8
  have "\<exists>props'. updateSourceMapFile exampleJSON ?P normalizedMapText
                (str ''/out/index.ios.bundle'') (str ''/proj/src'') =
              Inr (JSON_stringify exampleJSON (JObject props')) \<and>
      map_of props' (str ''sourceRoot'') = map_of ?props (str ''sourceRoot'') \<and>
      map_of props' (str ''file'') = map_of ?props (str ''file'') \<and>
      map_of props' (str ''sourcesContent'') = map_of ?props (str ''sourcesContent'') \<and>
      map_of props' (str ''sources'') = map_of ?props (str ''sources'')"
    by simp
  then have "\<exists>props'. updateSourceMapFile exampleJSON ?P normalizedMapText
                (str ''/out/index.ios.bundle'') (str ''/proj/src'') =
              Inr (JSON_stringify exampleJSON (JObject props')) \<and>
      map_of props' (str ''sourceRoot'') = Some (JString []) \<and>
      map_of props' (str ''file'') = Some (JString (str ''/out/index.ios.bundle'')) \<and>
      map_of props' (str ''sourcesContent'') = None \<and>
      map_of props' (str ''sources'') =
        Some (JArray [JString (str ''app/index.js''), JString (str ''../../other/lib.js'')])"
    unfolding 3 4 5 2 list.map a b .
  with 0 6 7 8 9 show ?thesis by blast
qed

text \<open>
  The claim as stated fails when the working directory is not the root directory: in
  \<^verbatim>\<open>/home/u\<close>, with the root \<^verbatim>\<open>/proj/src\<close>, the normalized entry \<^verbatim>\<open>app/index.js\<close> becomes
  \<^verbatim>\<open>../../home/u/app/index.js\<close>.
\<close>

theorem renormalize_cwd_counterexample:
  "updateSourceMapFile exampleJSON (posixPath (str ''/home/u'')) exampleMapText
     (str ''/out/index.ios.bundle'') (str ''/proj/src'') = Inr normalizedMapText \<and>
   JSON_parse exampleJSON normalizedMapText = Inr normalizedMap \<and>
   updateSourceMapFile exampleJSON (posixPath (str ''/home/u'')) normalizedMapText
     (str ''/out/index.ios.bundle'') (str ''/proj/src'') = Inr renormalizedMapText \<and>
   updateSourceMapPath (posixPath (str ''/home/u'')) (str ''app/index.js'') (str ''/proj/src'') =
     str ''../../home/u/app/index.js'' \<and>
   str ''../../home/u/app/index.js'' \<noteq> str ''app/index.js'' \<and>
   renormalizedMapText \<noteq> normalizedMapText"
proof -
  have 1: "updateSourceMapFile exampleJSON (posixPath (str ''/home/u'')) exampleMapText
     (str ''/out/index.ios.bundle'') (str ''/proj/src'') = Inr normalizedMapText"
    by code_simp
  have 2: "JSON_parse exampleJSON normalizedMapText = Inr normalizedMap"
    by code_simp
  have 3: "updateSourceMapFile exampleJSON (posixPath (str ''/home/u'')) normalizedMapText
     (str ''/out/index.ios.bundle'') (str ''/proj/src'') = Inr renormalizedMapText"
    by code_simp
  have 4: "updateSourceMapPath (posixPath (str ''/home/u'')) (str ''app/index.js'') (str ''/proj/src'') =
     str ''../../home/u/app/index.js''"
    by code_simp
  have 5: "str ''../../home/u/app/index.js'' \<noteq> str ''app/index.js''"
    by (simp add: str_def cu_def)
  have 6: "renormalizedMapText \<noteq> normalizedMapText"
    by code_simp
  from 1 2 3 4 5 6 show ?thesis by blast
qed

section \<open>Resolution and exceptions\<close>




text \<open>
  Claim C9, as amended. \<^verbatim>\<open>updateSourceMapFile\<close> raises for no input. \<^verbatim>\<open>updateScriptPaths\<close>
  raises an exception exactly when \<^verbatim>\<open>path.basename\<close> throws it on the \<^verbatim>\<open>pathname\<close> of the new
  location. \<^verbatim>\<open>getSourceMapURL\<close> has no handler: it raises an exception exactly when a
  reference value was extracted from the body and \<^verbatim>\<open>url.parse\<close> throws it on the reference
  value, or \<^verbatim>\<open>url.format\<close> throws it on the parsed reference value with the scheme and host
  of the script location, or \<^verbatim>\<open>url.parse\<close> throws it on the rendered location; it raises
  nothing when the body has no reference comment.
\<close>

theorem exceptions_exactly_from_url_and_basename:
  "(\<exists>r. updateSourceMapFile J P sourceMapBody scriptPath sourcesRootPath = Inr r) \<and>
   (updateScriptPaths P scriptBody sourceMappingUrl = Inl e \<longleftrightarrow>
      path_basename P (pathname sourceMappingUrl) = Inl e) \<and>
   (getSourceMapURL U scriptUrl scriptBody = Inl e \<longleftrightarrow>
      (\<exists>reference. getSourceMapRelativeUrl scriptBody = Some reference \<and>
         (url_parse U reference = Inl e \<or>
          (\<exists>parsed. url_parse U reference = Inr parsed \<and>
             (url_format U (parsed\<lparr>protocol := protocol scriptUrl, host := host scriptUrl\<rparr>) = Inl e \<or>
              (\<exists>formatted.
                 url_format U (parsed\<lparr>protocol := protocol scriptUrl, host := host scriptUrl\<rparr>) =
                   Inr formatted \<and>
                 url_parse U formatted = Inl e))))))"
proof (intro conjI)
  show "\<exists>r. updateSourceMapFile J P sourceMapBody scriptPath sourcesRootPath = Inr r"
    by (simp add: updateSourceMapFile_def split: sum.splits)
next
  show "updateScriptPaths P scriptBody sourceMappingUrl = Inl e \<longleftrightarrow>
      path_basename P (pathname sourceMappingUrl) = Inl e"
    by (simp add: updateScriptPaths_def split: sum.splits)
next
  show "getSourceMapURL U scriptUrl scriptBody = Inl e \<longleftrightarrow>
      (\<exists>reference. getSourceMapRelativeUrl scriptBody = Some reference \<and>
         (url_parse U reference = Inl e \<or>
          (\<exists>parsed. url_parse U reference = Inr parsed \<and>
             (url_format U (parsed\<lparr>protocol := protocol scriptUrl, host := host scriptUrl\<rparr>) = Inl e \<or>
              (\<exists>formatted.
                 url_format U (parsed\<lparr>protocol := protocol scriptUrl, host := host scriptUrl\<rparr>) =
                   Inr formatted \<and>
                 url_parse U formatted = Inl e)))))"
  proof (cases "getSourceMapRelativeUrl scriptBody")
    case None
    then show ?thesis by (simp add: getSourceMapURL_def)
  next
    case (Some rel)
    note ne = locator_nonempty [OF Some]
    show ?thesis
    proof (cases "url_parse U rel")
      case (Inl e1)
      with Some ne show ?thesis by (simp add: getSourceMapURL_def)
    next
      case (Inr u)
      show ?thesis
      proof (cases "url_format U (u\<lparr>protocol := protocol scriptUrl, host := host scriptUrl\<rparr>)")
        case (Inl e2)
        with Some Inr ne show ?thesis by (simp add: getSourceMapURL_def)
      next
        case f: (Inr formatted)
        with Some Inr ne show ?thesis
          by (simp add: getSourceMapURL_def split: sum.splits)
      qed
    qed
  qed
qed

theorem exceptions_exactly_from_url_and_basename_witness:
  "(\<exists>r. updateSourceMapFile exampleJSON (posixPath (str ''/home/u'')) (str ''{oops'')
           (str ''/out/index.ios.bundle'') (str ''/proj/src'') = Inr r) \<and>
   path_basename (posixPath (str ''/home/u'')) (pathname newMapUrl) = Inr (str ''new.map'') \<and>
   (\<exists>r. updateScriptPaths (posixPath (str ''/home/u'')) threeLineBody newMapUrl = Inr r) \<and>
   getSourceMapRelativeUrl (str ''run();//# sourceMappingURL=index.ios.map'') =
     Some (str ''index.ios.map'') \<and>
   url_parse throwingUrl (str ''index.ios.map'') = Inl URIError \<and>
   getSourceMapURL throwingUrl exampleScriptUrl (str ''run();//# sourceMappingURL=index.ios.map'') =
     Inl URIError"
proof -
  note t = exceptions_exactly_from_url_and_basename [where J = exampleJSON
      and P = "posixPath (str ''/home/u'')" and sourceMapBody = "str ''{oops''"
      and scriptPath = "str ''/out/index.ios.bundle''" and sourcesRootPath = "str ''/proj/src''"
      and sourceMappingUrl = newMapUrl and U = throwingUrl and scriptUrl = exampleScriptUrl
      and scriptBody = "str ''run();//# sourceMappingURL=index.ios.map''"]
  note t' = exceptions_exactly_from_url_and_basename [where J = exampleJSON
      and P = "posixPath (str ''/home/u'')" and sourceMapBody = "str ''{oops''"
      and scriptPath = "str ''/out/index.ios.bundle''" and sourcesRootPath = "str ''/proj/src''"
      and sourceMappingUrl = newMapUrl and U = throwingUrl and scriptUrl = exampleScriptUrl
      and scriptBody = threeLineBody]
  have 1: "path_basename (posixPath (str ''/home/u'')) (pathname newMapUrl) = Inr (str ''new.map'')"
    by code_simp
  have 2: "getSourceMapRelativeUrl (str ''run();//# sourceMappingURL=index.ios.map'') =
     Some (str ''index.ios.map'')"
    by code_simp
  have 3: "url_parse throwingUrl (str ''index.ios.map'') = Inl URIError"
    by (simp add: throwingUrl_def)
  from t [where e = URIError] 2 3
  have a: "(\<exists>r. updateSourceMapFile exampleJSON (posixPath (str ''/home/u'')) (str ''{oops'')
           (str ''/out/index.ios.bundle'') (str ''/proj/src'') = Inr r) \<and>
     getSourceMapURL throwingUrl exampleScriptUrl (str ''run();//# sourceMappingURL=index.ios.map'') =
       Inl URIError"
    by blast
  have b: "\<exists>r. updateScriptPaths (posixPath (str ''/home/u'')) threeLineBody newMapUrl = Inr r"
  proof (cases "updateScriptPaths (posixPath (str ''/home/u'')) threeLineBody newMapUrl")
    case (Inl e')
    with t' [where e = e'] 1 show ?thesis by simp
  next
    case (Inr r)
    then show ?thesis by blast
  qed
  from a b 1 2 3 show ?thesis by blast
qed

text \<open>
  The claim as stated fails: \<^verbatim>\<open>getSourceMapURL\<close> has no handler, and \<^verbatim>\<open>url.parse\<close> throws a
  \<^verbatim>\<open>URIError\<close> when the part of the reference value in front of \<^verbatim>\<open>@\<close> is not a valid
  percent-encoding.
\<close>

theorem getSourceMapURL_raises_counterexample:
  "getSourceMapRelativeUrl (str ''//# sourceMappingURL=http://%@h/x'') = Some (str ''http://%@h/x'') \<and>
   url_parse (nodeUrl asciiOnlyLib) (str ''http://%@h/x'') = Inl URIError \<and>
   getSourceMapURL (nodeUrl asciiOnlyLib) exampleScriptUrl
     (str ''//# sourceMappingURL=http://%@h/x'') = Inl URIError"
proof -
  have 1: "getSourceMapRelativeUrl (str ''//# sourceMappingURL=http://%@h/x'') = Some (str ''http://%@h/x'')"
    by code_simp
  have 2: "url_parse (nodeUrl asciiOnlyLib) (str ''http://%@h/x'') = Inl URIError"
    by (simp add: nodeUrl_def parse_malformed_auth)
  have 3: "getSourceMapURL (nodeUrl asciiOnlyLib) exampleScriptUrl
     (str ''//# sourceMappingURL=http://%@h/x'') = Inl URIError"
    by (rule getSourceMapURL_throws [OF 1 2])
  from 1 2 3 show ?thesis by blast
qed

end
